theory Spec2Isabelle
  imports Complex_Main
begin

section \<open>QuickLink URL shortener: generator, record store and hot cache\<close>

text \<open>
  A shallow embedding of \<^verbatim>\<open>url-shortener-service/server.js\<close>: the class
  \<^verbatim>\<open>ShortcodeGenerator\<close>, the class \<^verbatim>\<open>MemoryStore\<close> and the body of the
  \<^verbatim>\<open>POST /api/urls\<close> handler. Mutation of \<^verbatim>\<open>this\<close> is explicit state passing,
  a \<^verbatim>\<open>throw\<close> is the \<open>Inl\<close> of a sum, and what JavaScript reads from its runtime
  (\<^verbatim>\<open>Math.random()\<close>, \<^verbatim>\<open>Date.now()\<close>, \<^verbatim>\<open>new Date()\<close>) is an explicit input.
  Times are milliseconds since the epoch.
\<close>

subsection \<open>JavaScript \<^verbatim>\<open>Map\<close>: keyed, in insertion order\<close>

text \<open>
  A \<^verbatim>\<open>Map\<close> iterates in insertion order, \<^verbatim>\<open>set\<close> on a key already present
  keeps the key's position, and \<^verbatim>\<open>set\<close> on a new key appends it. The cache's eviction
  depends on that order, so a \<^verbatim>\<open>Map\<close> is an association list, oldest key first.
\<close>

type_synonym ('k, 'v) jsmap = "('k \<times> 'v) list"

definition jsmap_get :: "('k, 'v) jsmap \<Rightarrow> 'k \<Rightarrow> 'v option" where
  "jsmap_get m k = map_of m k"

definition jsmap_has :: "('k, 'v) jsmap \<Rightarrow> 'k \<Rightarrow> bool" where
  "jsmap_has m k = (map_of m k \<noteq> None)"

fun jsmap_set :: "('k, 'v) jsmap \<Rightarrow> 'k \<Rightarrow> 'v \<Rightarrow> ('k, 'v) jsmap" where
  "jsmap_set [] k v = [(k, v)]"
| "jsmap_set ((k', v') # m) k v =
     (if k' = k then (k, v) # m else (k', v') # jsmap_set m k v)"

definition jsmap_delete :: "('k, 'v) jsmap \<Rightarrow> 'k \<Rightarrow> ('k, 'v) jsmap" where
  "jsmap_delete m k = filter (\<lambda>e. fst e \<noteq> k) m"

definition jsmap_size :: "('k, 'v) jsmap \<Rightarrow> nat" where
  "jsmap_size m = length m"

definition jsmap_keys :: "('k, 'v) jsmap \<Rightarrow> 'k list" where
  "jsmap_keys m = map fst m"

text \<open>\<^verbatim>\<open>m.keys().next().value\<close>: the oldest key, \<^verbatim>\<open>undefined\<close> on an empty map.\<close>

definition jsmap_first_key :: "('k, 'v) jsmap \<Rightarrow> 'k option" where
  "jsmap_first_key m = (case m of [] \<Rightarrow> None | (k, _) # _ \<Rightarrow> Some k)"

subsection \<open>Errors\<close>

datatype error =
    Error string
  | ValidationError string
  | NotFoundError string
  | ConflictError string

subsection \<open>The runtime's inputs\<close>

text \<open>
  \<open>Math_random env i\<close> is what the \<open>i\<close>-th call of \<^verbatim>\<open>Math.random()\<close> returns and
  \<open>Date_now env i\<close> what the \<open>i\<close>-th call of \<^verbatim>\<open>Date.now()\<close> returns; the generator's
  state counts the calls made so far.
\<close>

record Env =
  Math_random :: "nat \<Rightarrow> real"
  Date_now :: "nat \<Rightarrow> nat"

subsection \<open>ShortcodeGenerator\<close>

definition charset :: string where
  "charset = ''abcdefghijklmnopqrstuvwxyzABCDEFGHIJKLMNOPQRSTUVWXYZ0123456789''"

definition readableCharset :: string where
  "readableCharset = ''abcdefghijkmnpqrstuvwxyzABCDEFGHJKLMNPQRSTUVWXYZ23456789''"

text \<open>
  The generator's field \<^verbatim>\<open>counter\<close>, with the number of \<^verbatim>\<open>Math.random()\<close> and
  \<^verbatim>\<open>Date.now()\<close> calls made so far. The constructor draws the counter as
  \<^verbatim>\<open>Math.floor(Math.random() * 1000)\<close>.
\<close>

record ShortcodeGenerator =
  counter :: nat
  random_calls :: nat
  now_calls :: nat

definition ShortcodeGenerator_new :: "Env \<Rightarrow> ShortcodeGenerator" where
  "ShortcodeGenerator_new env =
     \<lparr> counter = nat \<lfloor>Math_random env 0 * 1000\<rfloor>, random_calls = 1, now_calls = 0 \<rparr>"

text \<open>\<^verbatim>\<open>s.charAt(i)\<close>: the empty string out of range.\<close>

definition charAt :: "string \<Rightarrow> int \<Rightarrow> string" where
  "charAt s i = (if 0 \<le> i \<and> i < int (length s) then [s ! nat i] else [])"

text \<open>
  \<^verbatim>\<open>s[i]\<close> used in a string concatenation: out of range it is \<^verbatim>\<open>undefined\<close>, which
  concatenates as the text "undefined".
\<close>

definition char_index :: "string \<Rightarrow> int \<Rightarrow> string" where
  "char_index s i = (if 0 \<le> i \<and> i < int (length s) then [s ! nat i] else ''undefined'')"

text \<open>\<^verbatim>\<open>Math.floor(Math.random() * chars.length)\<close>, consuming one random number.\<close>

definition random_index :: "Env \<Rightarrow> ShortcodeGenerator \<Rightarrow> string \<Rightarrow> int \<times> ShortcodeGenerator" where
  "random_index env g chars =
     (\<lfloor>Math_random env (random_calls g) * real (length chars)\<rfloor>,
      g\<lparr>random_calls := random_calls g + 1\<rparr>)"

text \<open>The \<^verbatim>\<open>for\<close> loop of \<^verbatim>\<open>generateRandom\<close>; the first argument counts the rounds left.\<close>

fun generateRandom_loop ::
  "nat \<Rightarrow> Env \<Rightarrow> string \<Rightarrow> ShortcodeGenerator \<Rightarrow> string \<Rightarrow> string \<times> ShortcodeGenerator" where
  "generateRandom_loop 0 env chars g result = (result, g)"
| "generateRandom_loop (Suc n) env chars g result =
     (case random_index env g chars of
        (randomIndex, g') \<Rightarrow> generateRandom_loop n env chars g' (result @ charAt chars randomIndex))"

definition generateRandom ::
  "Env \<Rightarrow> ShortcodeGenerator \<Rightarrow> nat \<Rightarrow> bool \<Rightarrow> string \<times> ShortcodeGenerator" where
  "generateRandom env g len readable =
     (let chars = (if readable then readableCharset else charset)
      in generateRandom_loop len env chars g [])"

text \<open>
  \<^verbatim>\<open>parseInt(s, 16)\<close> on a piece of a hexadecimal digest: the value of the longest
  prefix of hexadecimal digits, \<^verbatim>\<open>NaN\<close> (here \<open>None\<close>) when there is none.
\<close>

definition hex_digit :: "char \<Rightarrow> nat option" where
  "hex_digit c =
     (let n = of_char c :: nat in
      if 48 \<le> n \<and> n \<le> 57 then Some (n - 48)
      else if 97 \<le> n \<and> n \<le> 102 then Some (n - 87)
      else if 65 \<le> n \<and> n \<le> 70 then Some (n - 55)
      else None)"

fun parseInt16_acc :: "nat option \<Rightarrow> string \<Rightarrow> nat option" where
  "parseInt16_acc acc [] = acc"
| "parseInt16_acc acc (c # cs) =
     (case hex_digit c of
        None \<Rightarrow> acc
      | Some d \<Rightarrow> parseInt16_acc (Some ((case acc of None \<Rightarrow> 0 | Some a \<Rightarrow> a) * 16 + d)) cs)"

definition parseInt16 :: "string \<Rightarrow> nat option" where
  "parseInt16 s = parseInt16_acc None s"

text \<open>\<^verbatim>\<open>s.substr(start, n)\<close> for a start that is not negative.\<close>

definition substr :: "string \<Rightarrow> nat \<Rightarrow> nat \<Rightarrow> string" where
  "substr s start n = take n (drop start s)"

text \<open>
  \<^verbatim>\<open>generateFromUrl\<close>. The digest
  \<^verbatim>\<open>crypto.createHash('md5').update(url).digest('hex')\<close> is the parameter \<open>md5_hex\<close>.
  Past the digest's end \<^verbatim>\<open>parseInt\<close> is \<^verbatim>\<open>NaN\<close>, the index is \<^verbatim>\<open>NaN\<close> and
  \<^verbatim>\<open>this.charset[NaN]\<close> is \<^verbatim>\<open>undefined\<close>.
\<close>

fun generateFromUrl_loop :: "nat \<Rightarrow> string \<Rightarrow> nat \<Rightarrow> string \<Rightarrow> string" where
  "generateFromUrl_loop 0 hash i result = result"
| "generateFromUrl_loop (Suc n) hash i result =
     generateFromUrl_loop n hash (i + 1)
       (result @ (case parseInt16 (substr hash (i * 2) 2) of
                    None \<Rightarrow> ''undefined''
                  | Some v \<Rightarrow> char_index charset (int (v mod length charset))))"

definition generateFromUrl :: "(string \<Rightarrow> string) \<Rightarrow> string \<Rightarrow> nat \<Rightarrow> string" where
  "generateFromUrl md5_hex url len = generateFromUrl_loop len (md5_hex url) 0 []"

text \<open>\<^verbatim>\<open>n.toString(36)\<close> for an integer that is not negative.\<close>

definition digit36 :: "nat \<Rightarrow> char" where
  "digit36 d = ''0123456789abcdefghijklmnopqrstuvwxyz'' ! d"

fun toString36 :: "nat \<Rightarrow> string" where
  "toString36 n = (if n < 36 then [digit36 n] else toString36 (n div 36) @ [digit36 (n mod 36)])"

declare toString36.simps [simp del]

text \<open>
  \<^verbatim>\<open>combined.slice(-length)\<close>: the last \<open>len\<close> characters; \<^verbatim>\<open>slice(-0)\<close> is
  \<^verbatim>\<open>slice(0)\<close>, the whole string.
\<close>

definition slice_last :: "string \<Rightarrow> nat \<Rightarrow> string" where
  "slice_last s len = (if len = 0 then s else drop (length s - len) s)"

text \<open>The \<^verbatim>\<open>while\<close> loop of \<^verbatim>\<open>generateSequential\<close>, which pads on the left.\<close>

function generateSequential_pad ::
  "Env \<Rightarrow> nat \<Rightarrow> ShortcodeGenerator \<Rightarrow> string \<Rightarrow> string \<times> ShortcodeGenerator" where
  "generateSequential_pad env len g result =
     (if length result < len
      then generateSequential_pad env len (snd (random_index env g charset))
             (char_index charset (fst (random_index env g charset)) @ result)
      else (result, g))"
  by pat_completeness auto
termination
  by (relation "measure (\<lambda>(env, len, g, result). len - length result)")
     (auto simp: char_index_def)

declare generateSequential_pad.simps [simp del]

definition generateSequential ::
  "Env \<Rightarrow> ShortcodeGenerator \<Rightarrow> nat \<Rightarrow> string \<times> ShortcodeGenerator" where
  "generateSequential env g len =
     (let g1 = g\<lparr>counter := (counter g + 1) mod 10000\<rparr>;
          timestamp = Date_now env (now_calls g1);
          g2 = g1\<lparr>now_calls := now_calls g1 + 1\<rparr>;
          combined = toString36 timestamp @ toString36 (counter g2);
          result = slice_last combined len
      in generateSequential_pad env len g2 result)"

text \<open>The options of \<^verbatim>\<open>generate\<close>, with the defaults of its destructuring.\<close>

record GenerateOptions =
  opt_length :: nat
  opt_strategy :: string
  opt_url :: "string option"
  opt_readable :: bool
  opt_maxAttempts :: int

definition default_options :: GenerateOptions where
  "default_options =
     \<lparr> opt_length = 6, opt_strategy = ''random'', opt_url = None,
       opt_readable = False, opt_maxAttempts = 10 \<rparr>"

text \<open>
  The \<^verbatim>\<open>switch (strategy)\<close> of \<^verbatim>\<open>generate\<close>: one candidate. \<^verbatim>\<open>!url\<close> holds for
  \<^verbatim>\<open>null\<close> and for the empty string.
\<close>

definition generate_candidate ::
  "(string \<Rightarrow> string) \<Rightarrow> Env \<Rightarrow> GenerateOptions \<Rightarrow> ShortcodeGenerator
     \<Rightarrow> error + string \<times> ShortcodeGenerator" where
  "generate_candidate md5_hex env opts g =
     (if opt_strategy opts = ''url-based'' then
        (case opt_url opts of
           None \<Rightarrow> Inl (Error ''URL required for url-based strategy'')
         | Some u \<Rightarrow>
             if u = [] then Inl (Error ''URL required for url-based strategy'')
             else Inr (generateFromUrl md5_hex u (opt_length opts), g))
      else if opt_strategy opts = ''sequential'' then
        Inr (generateSequential env g (opt_length opts))
      else Inr (generateRandom env g (opt_length opts) (opt_readable opts)))"

text \<open>
  What \<^verbatim>\<open>generate\<close> returns, with what it leaves behind: the number of attempts (the
  local \<^verbatim>\<open>attempts\<close>), the number of calls of \<^verbatim>\<open>existsCallback\<close> it made, the
  generator and the callback's own state.
\<close>

record 'c Generated =
  gen_shortcode :: string
  gen_attempts :: nat
  gen_calls :: nat
  gen_generator :: ShortcodeGenerator
  gen_callback :: 'c

text \<open>
  The \<^verbatim>\<open>do ... while (attempts < maxAttempts)\<close> loop. \<^verbatim>\<open>existsCallback\<close> is any
  function, so it may keep a state of its own (type \<open>'c\<close>); \<open>None\<close> is \<^verbatim>\<open>null\<close>.
\<close>

function generate_loop ::
  "(string \<Rightarrow> string) \<Rightarrow> Env \<Rightarrow> GenerateOptions \<Rightarrow> (string \<Rightarrow> 'c \<Rightarrow> bool \<times> 'c) option
     \<Rightarrow> nat \<Rightarrow> nat \<Rightarrow> ShortcodeGenerator \<Rightarrow> 'c \<Rightarrow> error + 'c Generated" where
  "generate_loop md5_hex env opts existsCallback attempts calls g c =
     (case generate_candidate md5_hex env opts g of
        Inl e \<Rightarrow> Inl e
      | Inr (shortcode, g1) \<Rightarrow>
          (case existsCallback of
             None \<Rightarrow>
               Inr \<lparr> gen_shortcode = shortcode, gen_attempts = attempts + 1, gen_calls = calls,
                     gen_generator = g1, gen_callback = c \<rparr>
           | Some f \<Rightarrow>
               if \<not> fst (f shortcode c) then
                 Inr \<lparr> gen_shortcode = shortcode, gen_attempts = attempts + 1,
                       gen_calls = calls + 1, gen_generator = g1,
                       gen_callback = snd (f shortcode c) \<rparr>
               else if int (attempts + 1) \<ge> opt_maxAttempts opts then
                 Inr \<lparr> gen_shortcode =
                         fst (generateRandom env g1 (opt_length opts + 2) (opt_readable opts)),
                       gen_attempts = attempts + 1, gen_calls = calls + 1,
                       gen_generator =
                         snd (generateRandom env g1 (opt_length opts + 2) (opt_readable opts)),
                       gen_callback = snd (f shortcode c) \<rparr>
               else if int (attempts + 1) < opt_maxAttempts opts then
                 generate_loop md5_hex env opts existsCallback (attempts + 1) (calls + 1) g1
                   (snd (f shortcode c))
               else
                 Inr \<lparr> gen_shortcode = shortcode, gen_attempts = attempts + 1,
                       gen_calls = calls + 1, gen_generator = g1,
                       gen_callback = snd (f shortcode c) \<rparr>))"
  by pat_completeness auto
termination
  by (relation "measure (\<lambda>(md5_hex, env, opts, cb, attempts, calls, g, c).
        nat (opt_maxAttempts opts - int attempts))") auto

declare generate_loop.simps [simp del]

definition generate ::
  "(string \<Rightarrow> string) \<Rightarrow> Env \<Rightarrow> ShortcodeGenerator \<Rightarrow> GenerateOptions
     \<Rightarrow> (string \<Rightarrow> 'c \<Rightarrow> bool \<times> 'c) option \<Rightarrow> 'c \<Rightarrow> error + 'c Generated" where
  "generate md5_hex env g opts existsCallback c =
     generate_loop md5_hex env opts existsCallback 0 0 g c"

subsection \<open>MemoryStore: the data\<close>

text \<open>The record that \<^verbatim>\<open>storeUrl\<close> builds; \<^verbatim>\<open>lastAccessed\<close> starts as \<^verbatim>\<open>null\<close>.\<close>

record UrlRecord =
  shortcode :: string
  originalUrl :: string
  description :: string
  createdAt :: int
  expiresAt :: int
  isActive :: bool
  clickCount :: nat
  lastAccessed :: "int option"

text \<open>
  The argument \<^verbatim>\<open>urlData\<close> of \<^verbatim>\<open>storeUrl\<close>: \<^verbatim>\<open>{ url, expiresIn, description }\<close>, the
  description possibly \<^verbatim>\<open>undefined\<close>.
\<close>

record UrlData =
  url :: string
  expiresIn :: int
  data_description :: "string option"

text \<open>
  The argument \<^verbatim>\<open>metadata\<close> of \<^verbatim>\<open>recordClick\<close>, with the keys that the redirect
  handler passes; \<open>None\<close> is a key the object does not have.
\<close>

record ClickMetadata =
  meta_ip :: "string option"
  meta_userAgent :: "string option"
  meta_referer :: "string option"
  meta_timestamp :: "int option"
  meta_requestId :: "string option"

record ClickEvent =
  timestamp :: int
  ip :: string
  userAgent :: string
  referer :: string
  country :: string
  requestId :: "string option"

record Stats =
  totalUrls :: nat
  totalClicks :: nat
  createdToday :: nat
  lastCleanup :: int

record MemoryStore =
  urls :: "(string, UrlRecord) jsmap"
  analytics :: "(string, ClickEvent list) jsmap"
  cache :: "(string, UrlRecord) jsmap"
  cacheSize :: nat
  stats :: Stats

text \<open>The constructor; \<open>now\<close> is its \<^verbatim>\<open>Date.now()\<close>.\<close>

definition MemoryStore_new :: "int \<Rightarrow> MemoryStore" where
  "MemoryStore_new now =
     \<lparr> urls = [], analytics = [], cache = [], cacheSize = 1000,
       stats = \<lparr> totalUrls = 0, totalClicks = 0, createdToday = 0, lastCleanup = now \<rparr> \<rparr>"

subsection \<open>MemoryStore: the operations\<close>

text \<open>
  Every operation takes \<open>now\<close>, the time its \<^verbatim>\<open>new Date()\<close> reads; the two reads of
  one \<^verbatim>\<open>getUrl\<close> call are taken to be the same instant.
\<close>

definition storeUrl ::
  "MemoryStore \<Rightarrow> string \<Rightarrow> UrlData \<Rightarrow> int \<Rightarrow> UrlRecord \<times> MemoryStore" where
  "storeUrl s code urlData now =
     (let record =
            \<lparr> shortcode = code,
              originalUrl = url urlData,
              description = (case data_description urlData of None \<Rightarrow> [] | Some d \<Rightarrow> d),
              createdAt = now,
              expiresAt = now + expiresIn urlData * 60 * 1000,
              isActive = True,
              clickCount = 0,
              lastAccessed = None \<rparr>
      in (record,
          s\<lparr> urls := jsmap_set (urls s) code record,
             analytics := jsmap_set (analytics s) code [],
             stats := (stats s)\<lparr> totalUrls := totalUrls (stats s) + 1,
                                  createdToday := createdToday (stats s) + 1 \<rparr> \<rparr>))"

text \<open>
  \<^verbatim>\<open>_addToCache\<close>: with the cache full, the oldest key goes
  (\<^verbatim>\<open>delete(undefined)\<close> on an empty cache deletes nothing); the entry is a copy of the
  record.
\<close>

definition addToCache :: "MemoryStore \<Rightarrow> string \<Rightarrow> UrlRecord \<Rightarrow> MemoryStore" where
  "addToCache s code record =
     (let c = (if jsmap_size (cache s) \<ge> cacheSize s
               then (case jsmap_first_key (cache s) of
                       None \<Rightarrow> cache s
                     | Some firstKey \<Rightarrow> jsmap_delete (cache s) firstKey)
               else cache s)
      in s\<lparr> cache := jsmap_set c code record \<rparr>)"

text \<open>\<^verbatim>\<open>getUrl\<close> from \<^verbatim>\<open>const record = this.urls.get(shortcode)\<close> on: the cache missed.\<close>

definition getUrl_record :: "MemoryStore \<Rightarrow> string \<Rightarrow> int \<Rightarrow> UrlRecord option \<times> MemoryStore" where
  "getUrl_record s code now =
     (case jsmap_get (urls s) code of
        None \<Rightarrow> (None, s)
      | Some record \<Rightarrow>
          if expiresAt record \<le> now then
            (None, s\<lparr> urls := jsmap_set (urls s) code (record\<lparr> isActive := False \<rparr>) \<rparr>)
          else if clickCount record > 5 then (Some record, addToCache s code record)
          else (Some record, s))"

definition getUrl :: "MemoryStore \<Rightarrow> string \<Rightarrow> int \<Rightarrow> UrlRecord option \<times> MemoryStore" where
  "getUrl s code now =
     (case jsmap_get (cache s) code of
        Some cached \<Rightarrow>
          if expiresAt cached > now then (Some cached, s)
          else getUrl_record (s\<lparr> cache := jsmap_delete (cache s) code \<rparr>) code now
      | None \<Rightarrow> getUrl_record s code now)"

text \<open>
  \<^verbatim>\<open>_getCountryFromIp\<close>; \<^verbatim>\<open>!ip\<close> holds for \<^verbatim>\<open>undefined\<close> and for the empty string.
  The table has the two keys \<^verbatim>\<open>127.0.0.1\<close> and \<^verbatim>\<open>::1\<close>.
\<close>

definition getCountryFromIp :: "string option \<Rightarrow> string" where
  "getCountryFromIp i =
     (case i of
        None \<Rightarrow> ''Unknown''
      | Some a \<Rightarrow>
          if a = [] \<or> a = ''unknown'' then ''Unknown''
          else if a = ''127.0.0.1'' \<or> a = ''::1'' then ''Local''
          else ''Unknown'')"

text \<open>
  \<^verbatim>\<open>clickData\<close>: the five defaults, then \<^verbatim>\<open>...metadata\<close>, which overwrites every key
  that \<^verbatim>\<open>metadata\<close> has, so a key of \<^verbatim>\<open>metadata\<close> wins over its default, as it is.
\<close>

definition clickData :: "ClickMetadata \<Rightarrow> int \<Rightarrow> ClickEvent" where
  "clickData metadata now =
     \<lparr> timestamp = (case meta_timestamp metadata of None \<Rightarrow> now | Some t \<Rightarrow> t),
       ip = (case meta_ip metadata of None \<Rightarrow> ''unknown'' | Some a \<Rightarrow> a),
       userAgent = (case meta_userAgent metadata of None \<Rightarrow> ''unknown'' | Some a \<Rightarrow> a),
       referer = (case meta_referer metadata of None \<Rightarrow> ''direct'' | Some a \<Rightarrow> a),
       country = getCountryFromIp (meta_ip metadata),
       requestId = meta_requestId metadata \<rparr>"

text \<open>\<^verbatim>\<open>analytics.push(clickData)\<close>, then the \<^verbatim>\<open>splice\<close> that keeps the last 100.\<close>

definition push_capped :: "ClickEvent list \<Rightarrow> ClickEvent \<Rightarrow> ClickEvent list" where
  "push_capped events ev =
     (let pushed = events @ [ev]
      in if length pushed > 100 then drop (length pushed - 100) pushed else pushed)"

definition recordClick ::
  "MemoryStore \<Rightarrow> string \<Rightarrow> ClickMetadata \<Rightarrow> int \<Rightarrow> bool \<times> MemoryStore" where
  "recordClick s code metadata now =
     (case jsmap_get (urls s) code of
        None \<Rightarrow> (False, s)
      | Some record \<Rightarrow>
          (let record' = record\<lparr> clickCount := clickCount record + 1,
                                 lastAccessed := Some now \<rparr>;
               events = (case jsmap_get (analytics s) code of None \<Rightarrow> [] | Some a \<Rightarrow> a);
               s1 = s\<lparr> urls := jsmap_set (urls s) code record',
                       stats := (stats s)\<lparr> totalClicks := totalClicks (stats s) + 1 \<rparr>,
                       analytics :=
                         jsmap_set (analytics s) code (push_capped events (clickData metadata now)) \<rparr>;
               s2 = (if jsmap_has (cache s1) code
                     then s1\<lparr> cache := jsmap_set (cache s1) code record' \<rparr>
                     else s1)
           in (True, s2)))"

definition exists :: "MemoryStore \<Rightarrow> string \<Rightarrow> bool" where
  "exists s code = jsmap_has (urls s) code"

text \<open>
  The \<^verbatim>\<open>for ... of this.urls.entries()\<close> loop of \<^verbatim>\<open>cleanupExpiredUrls\<close>: it visits
  every entry once, and deleting the entry it is at does not disturb the iteration.
\<close>

fun cleanup_loop ::
  "(string \<times> UrlRecord) list \<Rightarrow> int \<Rightarrow> MemoryStore \<Rightarrow> nat \<Rightarrow> nat \<times> MemoryStore" where
  "cleanup_loop [] now s cleanedCount = (cleanedCount, s)"
| "cleanup_loop ((code, record) # entries) now s cleanedCount =
     (if expiresAt record \<le> now
      then cleanup_loop entries now
             (s\<lparr> urls := jsmap_delete (urls s) code,
                 analytics := jsmap_delete (analytics s) code,
                 cache := jsmap_delete (cache s) code \<rparr>)
             (cleanedCount + 1)
      else cleanup_loop entries now s cleanedCount)"

definition cleanupExpiredUrls :: "MemoryStore \<Rightarrow> int \<Rightarrow> nat \<times> MemoryStore" where
  "cleanupExpiredUrls s now =
     (case cleanup_loop (urls s) now s 0 of
        (cleanedCount, s') \<Rightarrow>
          (cleanedCount, s'\<lparr> stats := (stats s')\<lparr> lastCleanup := now \<rparr> \<rparr>))"

subsection \<open>The handler of \<^verbatim>\<open>POST /api/urls\<close>\<close>

text \<open>
  The request body after validation, and what of the response comes from the store. The
  handler asks the generator for a sequential code of length 6 and passes
  \<^verbatim>\<open>memoryStore.exists\<close> as the callback, which keeps no state of its own.
  \<^verbatim>\<open>!finalShortcode\<close> holds for \<^verbatim>\<open>undefined\<close> and for the empty string. The
  model returns the record that the response is built from, with the generator and the
  store as the request leaves them.
\<close>

record CreateBody =
  body_url :: string
  body_shortcode :: "string option"
  body_expiresIn :: int
  body_description :: "string option"

definition handler_options :: "string \<Rightarrow> GenerateOptions" where
  "handler_options u =
     \<lparr> opt_length = 6, opt_strategy = ''sequential'', opt_url = Some u,
       opt_readable = True, opt_maxAttempts = 10 \<rparr>"

definition store_record ::
  "MemoryStore \<Rightarrow> ShortcodeGenerator \<Rightarrow> string \<Rightarrow> CreateBody \<Rightarrow> int
     \<Rightarrow> error + UrlRecord \<times> ShortcodeGenerator \<times> MemoryStore" where
  "store_record s g finalShortcode body now =
     (case storeUrl s finalShortcode
             \<lparr> url = body_url body, expiresIn = body_expiresIn body,
               data_description = body_description body \<rparr> now of
        (urlRecord, s') \<Rightarrow> Inr (urlRecord, g, s'))"

text \<open>A string that may be \<^verbatim>\<open>undefined\<close>, as a condition: \<open>None\<close> when it is falsy.\<close>

definition truthy_string :: "string option \<Rightarrow> string option" where
  "truthy_string x = (case x of None \<Rightarrow> None | Some v \<Rightarrow> if v = [] then None else Some v)"

definition post_api_urls ::
  "(string \<Rightarrow> string) \<Rightarrow> Env \<Rightarrow> ShortcodeGenerator \<Rightarrow> MemoryStore \<Rightarrow> CreateBody \<Rightarrow> int
     \<Rightarrow> error + UrlRecord \<times> ShortcodeGenerator \<times> MemoryStore" where
  "post_api_urls md5_hex env g s body now =
     (case truthy_string (body_shortcode body) of
        None \<Rightarrow>
          (case generate md5_hex env g (handler_options (body_url body))
                  (Some (\<lambda>code (u::unit). (exists s code, u))) () of
             Inl e \<Rightarrow> Inl e
           | Inr r \<Rightarrow> store_record s (gen_generator r) (gen_shortcode r) body now)
      | Some customShortcode \<Rightarrow>
          if exists s customShortcode then
            Inl (ConflictError (''Shortcode '' @ [CHR 0x27] @ customShortcode @ [CHR 0x27]
                                 @ '' is already taken''))
          else store_record s g customShortcode body now)"

subsection \<open>Notions the statements use\<close>

text \<open>The keys that one sweep at \<open>now\<close> finds expired among the entries it visits.\<close>

definition expired_keys :: "(string \<times> UrlRecord) list \<Rightarrow> int \<Rightarrow> string set" where
  "expired_keys entries now = {k. \<exists>r. (k, r) \<in> set entries \<and> expiresAt r \<le> now}"

text \<open>Calls of \<^verbatim>\<open>recordClick\<close> in a row on one shortcode, and a shortcode's event log.\<close>

fun recordClicks :: "MemoryStore \<Rightarrow> string \<Rightarrow> (ClickMetadata \<times> int) list \<Rightarrow> MemoryStore" where
  "recordClicks s code [] = s"
| "recordClicks s code ((metadata, now) # clicks) =
     recordClicks (snd (recordClick s code metadata now)) code clicks"

definition events_of :: "MemoryStore \<Rightarrow> string \<Rightarrow> ClickEvent list" where
  "events_of s code = (case jsmap_get (analytics s) code of None \<Rightarrow> [] | Some a \<Rightarrow> a)"

text \<open>No event log of the store holds more than 100 entries.\<close>

definition logs_capped :: "MemoryStore \<Rightarrow> bool" where
  "logs_capped s = list_all (\<lambda>e. length (snd e) \<le> 100) (analytics s)"

text \<open>
  Two conditions on a store. A \<^verbatim>\<open>Map\<close> holds a key once, which the lists must
  say: \<open>keys_distinct\<close>; every store that the operations reach has it. And every entry
  of the cache is a snapshot of the record that its key has in the record map, as far as
  the expiry goes: \<open>cache_coherent\<close>; \<^verbatim>\<open>storeUrl\<close> with a shortcode that is present and
  cached ends it, since it replaces the record and leaves the cache as it is.
\<close>

definition keys_distinct :: "MemoryStore \<Rightarrow> bool" where
  "keys_distinct s =
     (distinct (jsmap_keys (urls s)) \<and> distinct (jsmap_keys (analytics s))
      \<and> distinct (jsmap_keys (cache s)))"

definition cache_coherent :: "MemoryStore \<Rightarrow> bool" where
  "cache_coherent s =
     list_all (\<lambda>e. case jsmap_get (urls s) (fst e) of
                       None \<Rightarrow> False
                     | Some r \<Rightarrow> expiresAt r = expiresAt (snd e)) (cache s)"

text \<open>
  The stores that the operations reach from a new one, with any arguments: \<^verbatim>\<open>storeUrl\<close>
  also with a shortcode that is present, as the handler calls it with the generator's
  unchecked fallback draw.
\<close>

inductive reachable :: "MemoryStore \<Rightarrow> bool" where
  reachable_new: "reachable (MemoryStore_new now)"
| reachable_storeUrl: "reachable s \<Longrightarrow> reachable (snd (storeUrl s code urlData now))"
| reachable_getUrl: "reachable s \<Longrightarrow> reachable (snd (getUrl s code now))"
| reachable_recordClick: "reachable s \<Longrightarrow> reachable (snd (recordClick s code metadata now))"
| reachable_cleanup: "reachable s \<Longrightarrow> reachable (snd (cleanupExpiredUrls s now))"

text \<open>
  The test that \<^verbatim>\<open>getUrl\<close> starts with: the cache has an entry under the shortcode and
  the entry's own \<^verbatim>\<open>expiresAt\<close> is after \<open>now\<close>.
\<close>

definition live_snapshot :: "MemoryStore \<Rightarrow> string \<Rightarrow> int \<Rightarrow> bool" where
  "live_snapshot s code now =
     (case jsmap_get (cache s) code of None \<Rightarrow> False | Some cached \<Rightarrow> expiresAt cached > now)"

text \<open>
  Two values of one record object: they agree on what \<^verbatim>\<open>storeUrl\<close> sets and no
  operation changes afterwards. Only the active flag, the click count and the last access
  change in place.
\<close>

definition same_record :: "UrlRecord \<Rightarrow> UrlRecord \<Rightarrow> bool" where
  "same_record r r' =
     (shortcode r' = shortcode r \<and> originalUrl r' = originalUrl r
      \<and> description r' = description r \<and> createdAt r' = createdAt r
      \<and> expiresAt r' = expiresAt r)"

text \<open>The shortcode has a record in the store, and it is that record object.\<close>

definition bound_to :: "MemoryStore \<Rightarrow> string \<Rightarrow> UrlRecord \<Rightarrow> bool" where
  "bound_to s code r =
     (case jsmap_get (urls s) code of None \<Rightarrow> False | Some r' \<Rightarrow> same_record r r')"


text \<open>
  The first \<open>n\<close> candidates that \<^verbatim>\<open>generate\<close> draws when it goes on that long, each
  with the answer of \<^verbatim>\<open>existsCallback\<close> to it, and the generator and the callback's
  state after them. \<open>None\<close> when a candidate cannot be drawn (the url-based strategy
  without a URL).
\<close>

fun run_attempts ::
  "(string \<Rightarrow> string) \<Rightarrow> Env \<Rightarrow> GenerateOptions \<Rightarrow> (string \<Rightarrow> 'c \<Rightarrow> bool \<times> 'c)
     \<Rightarrow> nat \<Rightarrow> ShortcodeGenerator \<Rightarrow> 'c
     \<Rightarrow> ((string \<times> bool) list \<times> ShortcodeGenerator \<times> 'c) option" where
  "run_attempts md5_hex env opts f 0 g c = Some ([], g, c)"
| "run_attempts md5_hex env opts f (Suc n) g c =
     (case generate_candidate md5_hex env opts g of
        Inl e \<Rightarrow> None
      | Inr (code, g1) \<Rightarrow>
          (case run_attempts md5_hex env opts f n g1 (snd (f code c)) of
             None \<Rightarrow> None
           | Some (xs, g', c') \<Rightarrow> Some ((code, fst (f code c)) # xs, g', c')))"

subsection \<open>Example inputs\<close>

text \<open>A runtime and a generator to evaluate the generator on.\<close>

definition ex_env :: Env where
  "ex_env = \<lparr> Math_random = (\<lambda>i. if even i then 1 / 2 else 99 / 100),
               Date_now = (\<lambda>i. 1000 + i) \<rparr>"

definition ex_gen :: ShortcodeGenerator where
  "ex_gen = \<lparr> counter = 41, random_calls = 1, now_calls = 0 \<rparr>"

text \<open>Options for a short random code, and a callback that answers true to its first
  \<open>n\<close> calls and false afterwards, counting its calls.\<close>

definition ex_options :: "int \<Rightarrow> GenerateOptions" where
  "ex_options m = default_options\<lparr> opt_length := 2, opt_maxAttempts := m \<rparr>"

definition ex_callback :: "nat \<Rightarrow> string \<Rightarrow> nat \<Rightarrow> bool \<times> nat" where
  "ex_callback n code calls = (calls < n, calls + 1)"

text \<open>Example requests and stores.\<close>

definition ex_data_a :: UrlData where
  "ex_data_a = \<lparr> url = ''https://a.example'', expiresIn = 1, data_description = None \<rparr>"

definition ex_data_b :: UrlData where
  "ex_data_b = \<lparr> url = ''https://b.example'', expiresIn = 30, data_description = Some ''second'' \<rparr>"

definition ex_body :: "string option \<Rightarrow> CreateBody" where
  "ex_body c = \<lparr> body_url = ''https://b.example'', body_shortcode = c, body_expiresIn = 30,
                 body_description = None \<rparr>"

definition ex_meta :: ClickMetadata where
  "ex_meta = \<lparr> meta_ip = Some ''127.0.0.1'', meta_userAgent = Some ''curl'', meta_referer = None,
               meta_timestamp = None, meta_requestId = Some ''r1'' \<rparr>"

definition ex_clicks :: "nat \<Rightarrow> (ClickMetadata \<times> int) list" where
  "ex_clicks n = map (\<lambda>i. (ex_meta, 70000 + int i)) [0..<n]"

definition ex_event :: "int \<Rightarrow> ClickEvent" where
  "ex_event t = \<lparr> timestamp = t, ip = ''127.0.0.1'', userAgent = ''curl'',
            referer = ''direct'', country = ''Local'', requestId = Some ''r1'' \<rparr>"

text \<open>A store with one record, created at 0 for one minute.\<close>

definition ex_record_a :: UrlRecord where
  "ex_record_a =
     \<lparr> shortcode = ''abc'', originalUrl = ''https://a.example'', description = [],
       createdAt = 0, expiresAt = 60000, isActive = True, clickCount = 0, lastAccessed = None \<rparr>"

definition ex_store1 :: MemoryStore where
  "ex_store1 = snd (storeUrl (MemoryStore_new 0) ''abc'' ex_data_a 0)"

text \<open>A store with one hot key: created, clicked six times, then read, which caches it.\<close>

definition ex_hot_record :: UrlRecord where
  "ex_hot_record = \<lparr> shortcode = ''hot'', originalUrl = ''https://b.example'',
         description = ''second'', createdAt = 0, expiresAt = 1800000,
         isActive = True, clickCount = 6, lastAccessed = Some 70005 \<rparr>"

definition ex_store_hot :: MemoryStore where
  "ex_store_hot =
     snd (getUrl (recordClicks (snd (storeUrl (MemoryStore_new 0) ''hot'' ex_data_b 0)) ''hot''
                    (ex_clicks 6)) ''hot'' 100)"

text \<open>
  The store with the hot key after \<^verbatim>\<open>storeUrl\<close> at 200 with the same shortcode, for
  one minute: the record is new, the cache entry is the old record's.
\<close>

definition ex_store_stale :: MemoryStore where
  "ex_store_stale = snd (storeUrl ex_store_hot ''hot'' ex_data_a 200)"

definition ex_record_new :: UrlRecord where
  "ex_record_new =
     \<lparr> shortcode = ''hot'', originalUrl = ''https://a.example'', description = [],
       createdAt = 200, expiresAt = 60200, isActive = True, clickCount = 0,
       lastAccessed = None \<rparr>"




subsection \<open>Facts about the Map operations\<close>

lemma jsmap_get_set: "jsmap_get (jsmap_set m k v) k' = (if k' = k then Some v else jsmap_get m k')"
  by (induction m) (auto simp: jsmap_get_def)

lemma jsmap_has_get: "jsmap_has m k = (jsmap_get m k \<noteq> None)"
  by (simp add: jsmap_has_def jsmap_get_def)

lemma jsmap_has_keys: "jsmap_has m k = (k \<in> set (jsmap_keys m))"
  by (simp add: jsmap_has_def jsmap_keys_def map_of_eq_None_iff)

lemma jsmap_has_set: "jsmap_has (jsmap_set m k v) k' = (k' = k \<or> jsmap_has m k')"
  by (simp add: jsmap_has_get jsmap_get_set)

lemma jsmap_get_delete:
  "jsmap_get (jsmap_delete m k) k' = (if k' = k then None else jsmap_get m k')"
  by (induction m) (auto simp: jsmap_get_def jsmap_delete_def)

lemma jsmap_has_delete: "jsmap_has (jsmap_delete m k) k' = (k' \<noteq> k \<and> jsmap_has m k')"
  by (simp add: jsmap_has_get jsmap_get_delete)

lemma jsmap_keys_set:
  "jsmap_keys (jsmap_set m k v) =
     (if k \<in> set (jsmap_keys m) then jsmap_keys m else jsmap_keys m @ [k])"
proof (induction m)
  case Nil
  show ?case by (simp add: jsmap_keys_def)
next
  case (Cons e m)
  obtain k' v' where e: "e = (k', v')" by (cases e)
  show ?case
  proof (cases "k' = k")
    case True
    then show ?thesis by (simp add: e jsmap_keys_def)
  next
    case False
    then show ?thesis using Cons.IH by (simp add: e jsmap_keys_def)
  qed
qed

lemma jsmap_keys_delete: "jsmap_keys (jsmap_delete m k) = filter (\<lambda>k'. k' \<noteq> k) (jsmap_keys m)"
  by (induction m) (auto simp: jsmap_keys_def jsmap_delete_def)

lemma jsmap_set_entries: "set (jsmap_set m k v) \<subseteq> insert (k, v) (set m)"
  by (induction m) (auto split: if_splits)

lemma jsmap_delete_entries: "set (jsmap_delete m k) \<subseteq> set m"
  by (auto simp: jsmap_delete_def)

lemma jsmap_get_filter_keys:
  "jsmap_get (filter (\<lambda>e. fst e \<notin> D) m) k = (if k \<in> D then None else jsmap_get m k)"
  by (induction m) (auto simp: jsmap_get_def)

lemma jsmap_keys_filter:
  "jsmap_keys (filter (\<lambda>e. fst e \<notin> D) m) = filter (\<lambda>k. k \<notin> D) (jsmap_keys m)"
  by (induction m) (auto simp: jsmap_keys_def)

subsection \<open>What a sweep leaves\<close>

lemma filter_filter_keys:
  "filter (\<lambda>e. fst e \<notin> D) (jsmap_delete m k) = filter (\<lambda>e. fst e \<notin> insert k D) m"
  by (induction m) (auto simp: jsmap_delete_def)

lemma expired_keys_Cons:
  "expired_keys ((k, r) # es) now = (if expiresAt r \<le> now then insert k (expired_keys es now) else expired_keys es now)"
  by (auto simp: expired_keys_def)

lemma cleanup_loop_result:
  "cleanup_loop entries now s n =
     (n + length (filter (\<lambda>e. expiresAt (snd e) \<le> now) entries),
      s\<lparr> urls := filter (\<lambda>e. fst e \<notin> expired_keys entries now) (urls s),
         analytics := filter (\<lambda>e. fst e \<notin> expired_keys entries now) (analytics s),
         cache := filter (\<lambda>e. fst e \<notin> expired_keys entries now) (cache s) \<rparr>)"
proof (induction entries arbitrary: s n)
  case Nil
  show ?case by (simp add: expired_keys_def)
next
  case (Cons e es)
  obtain k r where e: "e = (k, r)" by (cases e)
  show ?case
    unfolding e by (simp add: Cons.IH expired_keys_Cons filter_filter_keys)
qed


subsection \<open>The readable character set\<close>

lemma charAt_subset: "set (charAt s i) \<subseteq> set s"
  by (auto simp: charAt_def)

lemma generateRandom_loop_chars:
  "set (fst (generateRandom_loop n env chars g result)) \<subseteq> set result \<union> set chars"
proof (induction n arbitrary: g result)
  case 0
  show ?case by simp
next
  case (Suc n)
  have "set (fst (generateRandom_loop n env chars (snd (random_index env g chars))
               (result @ charAt chars (fst (random_index env g chars)))))
        \<subseteq> set (result @ charAt chars (fst (random_index env g chars))) \<union> set chars"
    by (rule Suc.IH)
  also have "\<dots> \<subseteq> set result \<union> set chars"
    using charAt_subset [of chars] by auto
  finally show ?case by (simp add: case_prod_unfold)
qed

text \<open>
  The readable set does not have 57 characters, and it lacks the lower-case letter o, which
  is not among 0, O, 1, l, I.
\<close>

theorem readable_charset_counterexample:
  "length readableCharset \<noteq> 57 \<and> CHR ''o'' \<in> set charset \<and> CHR ''o'' \<notin> set ''0O1lI''
     \<and> CHR ''o'' \<notin> set readableCharset"
  by (simp add: readableCharset_def charset_def)

text \<open>
  C3, as the code has it: the full set has 62 distinct characters; the readable set has 56,
  and is the full set, in its order, without the six characters 0, O, 1, l, o, I; every code
  that \<^verbatim>\<open>generateRandom\<close> draws under the readable variant, whatever the random
  numbers and the length, uses only characters of that 56-character set.
\<close>

theorem readable_charset:
  "length charset = 62 \<and> distinct charset
     \<and> length readableCharset = 56
     \<and> readableCharset = filter (\<lambda>c. c \<notin> set ''0O1loI'') charset
     \<and> set (fst (generateRandom env g len True)) \<subseteq> set readableCharset"
proof -
  have "set (fst (generateRandom env g len True)) \<subseteq> set readableCharset"
    using generateRandom_loop_chars [of len env readableCharset g "[]"]
    by (simp add: generateRandom_def)
  moreover have "length charset = 62" "distinct charset"
    by (simp_all add: charset_def)
  moreover have "length readableCharset = 56"
    by (simp add: readableCharset_def)
  moreover have "readableCharset = filter (\<lambda>c. c \<notin> set ''0O1loI'') charset"
    by (simp add: readableCharset_def charset_def)
  ultimately show ?thesis by simp
qed

lemma generateRandom_loop_numeral:
  "generateRandom_loop (numeral k) env chars g result =
     generateRandom_loop (pred_numeral k) env chars (snd (random_index env g chars))
       (result @ charAt chars (fst (random_index env g chars)))"
  by (simp add: numeral_eq_Suc case_prod_unfold)

lemma ex_generateRandom: "fst (generateRandom ex_env ex_gen 3 True) = ''9E9''"
  by (simp add: generateRandom_def ex_env_def ex_gen_def random_index_def charAt_def
      readableCharset_def generateRandom_loop_numeral)

theorem readable_charset_witness:
  "length charset = 62 \<and> distinct charset
     \<and> length readableCharset = 56
     \<and> readableCharset = filter (\<lambda>c. c \<notin> set ''0O1loI'') charset
     \<and> set (fst (generateRandom ex_env ex_gen 3 True)) \<subseteq> set readableCharset"
  by (rule readable_charset)

subsection \<open>Creating a record\<close>

lemma ex_store1_value:
  "ex_store1 =
     \<lparr> urls = [(''abc'', \<lparr> shortcode = ''abc'', originalUrl = ''https://a.example'',
                          description = [], createdAt = 0, expiresAt = 60000, isActive = True,
                          clickCount = 0, lastAccessed = None \<rparr>)],
       analytics = [(''abc'', [])], cache = [], cacheSize = 1000,
       stats = \<lparr> totalUrls = 1, totalClicks = 0, createdToday = 1, lastCleanup = 0 \<rparr> \<rparr>"
  by (simp add: ex_store1_def storeUrl_def MemoryStore_new_def ex_data_a_def Let_def)

text \<open>
  A shortcode that is present, and \<^verbatim>\<open>storeUrl\<close> called with it: the call returns
  the new record and binds the shortcode to it.
\<close>

theorem storeUrl_present_counterexample:
  "exists ex_store1 ''abc''
     \<and> fst (storeUrl ex_store1 ''abc'' ex_data_b 5) =
         \<lparr> shortcode = ''abc'', originalUrl = ''https://b.example'', description = ''second'',
           createdAt = 5, expiresAt = 1800005, isActive = True, clickCount = 0,
           lastAccessed = None \<rparr>
     \<and> jsmap_get (urls (snd (storeUrl ex_store1 ''abc'' ex_data_b 5))) ''abc'' =
         Some (fst (storeUrl ex_store1 ''abc'' ex_data_b 5))"
  by (simp add: ex_store1_value exists_def jsmap_has_def jsmap_get_def storeUrl_def ex_data_b_def Let_def)

lemma post_api_urls_custom:
  "post_api_urls md5_hex env g s (body\<lparr> body_shortcode := Some (c # cs) \<rparr>) now =
     (if exists s (c # cs)
      then Inl (ConflictError (''Shortcode '' @ [CHR 0x27] @ (c # cs) @ [CHR 0x27]
                                @ '' is already taken''))
      else Inr (fst (storeUrl s (c # cs)
                      \<lparr> url = body_url body, expiresIn = body_expiresIn body,
                        data_description = body_description body \<rparr> now), g,
                snd (storeUrl s (c # cs)
                      \<lparr> url = body_url body, expiresIn = body_expiresIn body,
                        data_description = body_description body \<rparr> now)))"
  by (simp add: post_api_urls_def truthy_string_def store_record_def case_prod_unfold)

text \<open>
  C1, as the code has it: \<^verbatim>\<open>storeUrl\<close> never fails. For every shortcode, present
  or not, it returns the record it has just built and leaves the shortcode bound to that
  record, with an empty event log. The failure for a shortcode that is present is the
  handler's: with a shortcode supplied, \<^verbatim>\<open>POST /api/urls\<close> fails exactly when
  \<^verbatim>\<open>exists\<close> holds for it, before \<^verbatim>\<open>storeUrl\<close> is called.
\<close>

theorem storeUrl_never_fails:
  "fst (storeUrl s code urlData now) =
       \<lparr> shortcode = code, originalUrl = url urlData,
         description = (case data_description urlData of None \<Rightarrow> [] | Some d \<Rightarrow> d),
         createdAt = now, expiresAt = now + expiresIn urlData * 60 * 1000,
         isActive = True, clickCount = 0, lastAccessed = None \<rparr>
     \<and> jsmap_get (urls (snd (storeUrl s code urlData now))) code =
         Some (fst (storeUrl s code urlData now))
     \<and> jsmap_get (analytics (snd (storeUrl s code urlData now))) code = Some []
     \<and> exists (snd (storeUrl s code urlData now)) code
     \<and> ((\<exists>e. post_api_urls md5_hex env g s (body\<lparr> body_shortcode := Some (c # cs) \<rparr>) now'
              = Inl e) = exists s (c # cs))"
  by (simp add: storeUrl_def Let_def jsmap_get_set exists_def jsmap_has_set post_api_urls_custom
      del: jsmap_set.simps)

theorem storeUrl_never_fails_witness:
  "fst (storeUrl ex_store1 ''abc'' ex_data_b 5) =
       \<lparr> shortcode = ''abc'', originalUrl = ''https://b.example'', description = ''second'',
         createdAt = 5, expiresAt = 1800005, isActive = True, clickCount = 0,
         lastAccessed = None \<rparr>
     \<and> exists (snd (storeUrl ex_store1 ''abc'' ex_data_b 5)) ''abc''
     \<and> (\<exists>e. post_api_urls id ex_env ex_gen ex_store1 (ex_body (Some ''abc'')) 5 = Inl e)"
proof -
  have "exists ex_store1 ''abc''"
    by (simp add: ex_store1_value exists_def jsmap_has_def)
  moreover have "ex_body (Some ''abc'') = (ex_body None)\<lparr> body_shortcode := Some ''abc'' \<rparr>"
    by (simp add: ex_body_def)
  ultimately show ?thesis
    using storeUrl_never_fails [where s = ex_store1 and code = "''abc''" and urlData = ex_data_b
        and now = 5 and md5_hex = id and env = ex_env and g = ex_gen and body = "ex_body None"
        and c = "CHR ''a''" and cs = "''bc''" and now' = 5]
    by (simp add: ex_data_b_def storeUrl_def Let_def)
qed


subsection \<open>Recording clicks\<close>

lemma recordClick_unknown:
  "jsmap_get (urls s) code = None \<Longrightarrow> recordClick s code metadata now = (False, s)"
  by (simp add: recordClick_def)

lemma recordClick_known:
  assumes "jsmap_get (urls s) code = Some r"
  shows "fst (recordClick s code metadata now)"
    and "jsmap_get (urls (snd (recordClick s code metadata now))) code =
           Some (r\<lparr> clickCount := clickCount r + 1, lastAccessed := Some now \<rparr>)"
    and "events_of (snd (recordClick s code metadata now)) code =
           push_capped (events_of s code) (clickData metadata now)"
    and "totalClicks (stats (snd (recordClick s code metadata now))) = totalClicks (stats s) + 1"
  using assms
  by (simp_all add: recordClick_def Let_def jsmap_get_set events_of_def del: jsmap_set.simps)

lemma recordClicks_count:
  "jsmap_get (urls s) code = Some r \<Longrightarrow>
     \<exists>r'. jsmap_get (urls (recordClicks s code clicks)) code = Some r'
        \<and> clickCount r' = clickCount r + length clicks"
proof (induction clicks arbitrary: s r)
  case Nil
  then show ?case by simp
next
  case (Cons c clicks)
  obtain metadata now where c: "c = (metadata, now)" by (cases c)
  let ?r = "r\<lparr> clickCount := clickCount r + 1, lastAccessed := Some now \<rparr>"
  have "jsmap_get (urls (snd (recordClick s code metadata now))) code = Some ?r"
    using Cons.prems by (rule recordClick_known(2))
  from Cons.IH [OF this] show ?case by (simp add: c)
qed

lemma push_capped_short: "length events < 100 \<Longrightarrow> push_capped events ev = events @ [ev]"
  by (simp add: push_capped_def Let_def)

text \<open>
  C6: on an unknown shortcode \<^verbatim>\<open>recordClick\<close> returns false and the store is the
  same; on a known one, whatever its expiry, it returns true, the record's click count is
  one more, its last access is \<open>now\<close>, and the click is appended to the event log (cut to
  the last 100); so after any number of clicks in a row on a record that had none, the
  count is that number.
\<close>

theorem recordClick_counts:
  "(jsmap_get (urls s) code = None \<longrightarrow> recordClick s code metadata now = (False, s))
   \<and> (jsmap_get (urls s) code = Some r \<longrightarrow>
        fst (recordClick s code metadata now)
        \<and> jsmap_get (urls (snd (recordClick s code metadata now))) code =
             Some (r\<lparr> clickCount := clickCount r + 1, lastAccessed := Some now \<rparr>)
        \<and> events_of (snd (recordClick s code metadata now)) code =
             push_capped (events_of s code) (clickData metadata now)
        \<and> (length (events_of s code) < 100 \<longrightarrow>
             events_of (snd (recordClick s code metadata now)) code =
               events_of s code @ [clickData metadata now])
        \<and> (clickCount r = 0 \<longrightarrow>
             (\<exists>r'. jsmap_get (urls (recordClicks s code clicks)) code = Some r'
                \<and> clickCount r' = length clicks)))"
proof (intro conjI impI)
  assume "jsmap_get (urls s) code = None"
  then show "recordClick s code metadata now = (False, s)" by (rule recordClick_unknown)
next
  assume r: "jsmap_get (urls s) code = Some r"
  show "fst (recordClick s code metadata now)"
    using r by (rule recordClick_known(1))
  show "jsmap_get (urls (snd (recordClick s code metadata now))) code =
          Some (r\<lparr> clickCount := clickCount r + 1, lastAccessed := Some now \<rparr>)"
    using r by (rule recordClick_known(2))
  show e: "events_of (snd (recordClick s code metadata now)) code =
          push_capped (events_of s code) (clickData metadata now)"
    using r by (rule recordClick_known(3))
  { assume "length (events_of s code) < 100"
    then show "events_of (snd (recordClick s code metadata now)) code =
                 events_of s code @ [clickData metadata now]"
      by (simp add: e push_capped_short) }
  { assume "clickCount r = 0"
    then show "\<exists>r'. jsmap_get (urls (recordClicks s code clicks)) code = Some r'
                 \<and> clickCount r' = length clicks"
      using recordClicks_count [OF r, of clicks] by simp }
qed

lemma ex_store1_expired:
  "jsmap_get (urls ex_store1) ''abc'' =
     Some \<lparr> shortcode = ''abc'', originalUrl = ''https://a.example'',
            description = [], createdAt = 0, expiresAt = 60000, isActive = True,
            clickCount = 0, lastAccessed = None \<rparr>"
  by (simp add: ex_store1_value jsmap_get_def)

theorem recordClick_counts_witness:
  "jsmap_get (urls ex_store1) ''nope'' = None
   \<and> recordClick ex_store1 ''nope'' ex_meta 70000 = (False, ex_store1)
   \<and> fst (recordClick ex_store1 ''abc'' ex_meta 70000)
   \<and> jsmap_get (urls (snd (recordClick ex_store1 ''abc'' ex_meta 70000))) ''abc'' =
        Some \<lparr> shortcode = ''abc'', originalUrl = ''https://a.example'',
               description = [], createdAt = 0, expiresAt = 60000, isActive = True,
               clickCount = 1, lastAccessed = Some 70000 \<rparr>
   \<and> events_of (snd (recordClick ex_store1 ''abc'' ex_meta 70000)) ''abc'' =
        [\<lparr> timestamp = 70000, ip = ''127.0.0.1'', userAgent = ''curl'', referer = ''direct'',
           country = ''Local'', requestId = Some ''r1'' \<rparr>]
   \<and> (\<exists>r'. jsmap_get (urls (recordClicks ex_store1 ''abc''
                      [(ex_meta, 70000), (ex_meta, 70001), (ex_meta, 70002)])) ''abc''
                    = Some r' \<and> clickCount r' = 3)"
proof -
  have n: "jsmap_get (urls ex_store1) ''nope'' = None"
    by (simp add: ex_store1_value jsmap_get_def)
  have e: "events_of ex_store1 ''abc'' = []"
    by (simp add: ex_store1_value events_of_def jsmap_get_def)
  show ?thesis
    using recordClick_counts [of ex_store1 "''nope''" ex_meta 70000 undefined "[]"]
      recordClick_counts [of ex_store1 "''abc''" ex_meta 70000
        "\<lparr> shortcode = ''abc'', originalUrl = ''https://a.example'',
           description = [], createdAt = 0, expiresAt = 60000, isActive = True,
           clickCount = 0, lastAccessed = None \<rparr>"
        "[(ex_meta, 70000), (ex_meta, 70001), (ex_meta, 70002)]"]
      n ex_store1_expired e
    by (simp add: clickData_def ex_meta_def getCountryFromIp_def push_capped_def Let_def
        numeral_3_eq_3)
qed

subsection \<open>The event log's bound\<close>

lemma push_capped_length: "length (push_capped events ev) \<le> 100"
  by (simp add: push_capped_def Let_def)

lemma push_capped_last:
  "push_capped (drop (length xs - 100) xs) ev = drop (length (xs @ [ev]) - 100) (xs @ [ev])"
proof (cases "length xs < 100")
  case True
  then show ?thesis by (simp add: push_capped_def Let_def)
next
  case False
  then have "length xs - 100 + 1 = Suc (length xs) - 100" by simp
  with False show ?thesis by (simp add: push_capped_def Let_def Suc_diff_le)
qed

lemma recordClicks_events:
  assumes "jsmap_get (urls s) code = Some r"
    and "events_of s code = drop (length xs - 100) xs"
  shows "events_of (recordClicks s code clicks) code =
           drop (length (xs @ map (\<lambda>c. clickData (fst c) (snd c)) clicks) - 100)
             (xs @ map (\<lambda>c. clickData (fst c) (snd c)) clicks)"
  using assms
proof (induction clicks arbitrary: s r xs)
  case Nil
  then show ?case by simp
next
  case (Cons c clicks)
  obtain metadata now where c: "c = (metadata, now)" by (cases c)
  let ?s = "snd (recordClick s code metadata now)"
  have 1: "jsmap_get (urls ?s) code =
             Some (r\<lparr> clickCount := clickCount r + 1, lastAccessed := Some now \<rparr>)"
    using Cons.prems(1) by (rule recordClick_known(2))
  have "events_of ?s code = push_capped (events_of s code) (clickData metadata now)"
    using Cons.prems(1) by (rule recordClick_known(3))
  then have 2: "events_of ?s code =
      drop (length (xs @ [clickData metadata now]) - 100) (xs @ [clickData metadata now])"
    by (simp only: Cons.prems(2) push_capped_last)
  from Cons.IH [OF 1 2] show ?case by (simp add: c)
qed

lemma logs_capped_iff:
  "logs_capped s = (\<forall>e \<in> set (analytics s). length (snd e) \<le> 100)"
  by (simp add: logs_capped_def list_all_iff)

lemma logs_capped_storeUrl: "logs_capped s \<Longrightarrow> logs_capped (snd (storeUrl s code urlData now))"
  using jsmap_set_entries [of "analytics s" code "[]"]
  by (auto simp: logs_capped_iff storeUrl_def Let_def simp del: jsmap_set.simps)

lemma addToCache_analytics: "analytics (addToCache s code r) = analytics s"
  by (simp add: addToCache_def Let_def)

lemma getUrl_record_analytics: "analytics (snd (getUrl_record s code now)) = analytics s"
  by (simp add: getUrl_record_def addToCache_analytics split: option.splits)

lemma getUrl_analytics: "analytics (snd (getUrl s code now)) = analytics s"
  by (simp add: getUrl_def getUrl_record_analytics split: option.splits)

lemma logs_capped_recordClick:
  "logs_capped s \<Longrightarrow> logs_capped (snd (recordClick s code metadata now))"
  using jsmap_set_entries [of "analytics s" code
      "push_capped (case jsmap_get (analytics s) code of None \<Rightarrow> [] | Some a \<Rightarrow> a)
         (clickData metadata now)"]
    push_capped_length [of "case jsmap_get (analytics s) code of None \<Rightarrow> [] | Some a \<Rightarrow> a"
      "clickData metadata now"]
  by (auto simp: logs_capped_iff recordClick_def Let_def simp del: jsmap_set.simps
      split: option.splits)

lemma logs_capped_cleanup: "logs_capped s \<Longrightarrow> logs_capped (snd (cleanupExpiredUrls s now))"
  by (auto simp: logs_capped_iff cleanupExpiredUrls_def cleanup_loop_result)

text \<open>
  C7: a click on a known shortcode leaves its event log with at most 100 entries; no
  operation of the store makes any log longer than 100, and a new store has none; after
  clicks in a row on a record whose log was empty, the log is the clicks' events without
  the first (number of clicks - 100), oldest first: after 150 clicks, events 51 to 150 in
  order.
\<close>

theorem event_log_capped:
  "(jsmap_get (urls s) code = Some r \<longrightarrow>
      length (events_of (snd (recordClick s code metadata now)) code) \<le> 100)
   \<and> logs_capped (MemoryStore_new now)
   \<and> (logs_capped s \<longrightarrow>
        logs_capped (snd (storeUrl s code urlData now))
        \<and> logs_capped (snd (getUrl s code now))
        \<and> logs_capped (snd (recordClick s code metadata now))
        \<and> logs_capped (snd (cleanupExpiredUrls s now)))
   \<and> (jsmap_get (urls s) code = Some r \<and> events_of s code = [] \<longrightarrow>
        events_of (recordClicks s code clicks) code =
          drop (length clicks - 100) (map (\<lambda>c. clickData (fst c) (snd c)) clicks)
        \<and> (length clicks = 150 \<longrightarrow>
             events_of (recordClicks s code clicks) code =
               drop 50 (map (\<lambda>c. clickData (fst c) (snd c)) clicks)
             \<and> length (events_of (recordClicks s code clicks) code) = 100))"
proof (intro conjI impI)
  assume "jsmap_get (urls s) code = Some r"
  then show "length (events_of (snd (recordClick s code metadata now)) code) \<le> 100"
    by (simp add: recordClick_known(3) push_capped_length)
next
  show "logs_capped (MemoryStore_new now)"
    by (simp add: logs_capped_def MemoryStore_new_def)
next
  assume "logs_capped s"
  then show "logs_capped (snd (storeUrl s code urlData now))"
    by (rule logs_capped_storeUrl)
  from \<open>logs_capped s\<close> show "logs_capped (snd (getUrl s code now))"
    by (simp add: logs_capped_def getUrl_analytics)
  from \<open>logs_capped s\<close> show "logs_capped (snd (recordClick s code metadata now))"
    by (rule logs_capped_recordClick)
  from \<open>logs_capped s\<close> show "logs_capped (snd (cleanupExpiredUrls s now))"
    by (rule logs_capped_cleanup)
next
  assume a: "jsmap_get (urls s) code = Some r \<and> events_of s code = []"
  then have "events_of s code = drop (length ([]::ClickEvent list) - 100) []" by simp
  with a have e: "events_of (recordClicks s code clicks) code =
      drop (length ([] @ map (\<lambda>c. clickData (fst c) (snd c)) clicks) - 100)
        ([] @ map (\<lambda>c. clickData (fst c) (snd c)) clicks)"
    by (intro recordClicks_events) auto
  then show g: "events_of (recordClicks s code clicks) code =
      drop (length clicks - 100) (map (\<lambda>c. clickData (fst c) (snd c)) clicks)"
    by simp
  { assume "length clicks = 150"
    then show "events_of (recordClicks s code clicks) code =
        drop 50 (map (\<lambda>c. clickData (fst c) (snd c)) clicks)"
      and "length (events_of (recordClicks s code clicks) code) = 100"
      by (simp_all add: g) }
qed

theorem event_log_capped_witness:
  "length (events_of (snd (recordClick ex_store1 ''abc'' ex_meta 70000)) ''abc'') \<le> 100
   \<and> logs_capped ex_store1
   \<and> logs_capped (snd (recordClick ex_store1 ''abc'' ex_meta 70000))
   \<and> length (ex_clicks 150) = 150
   \<and> events_of (recordClicks ex_store1 ''abc'' (ex_clicks 150)) ''abc'' =
        map (\<lambda>i. clickData ex_meta (70000 + int i)) [50..<150]
   \<and> length (events_of (recordClicks ex_store1 ''abc'' (ex_clicks 150)) ''abc'') = 100"
proof -
  have e: "events_of ex_store1 ''abc'' = []"
    by (simp add: ex_store1_value events_of_def jsmap_get_def)
  have l: "logs_capped ex_store1"
    by (simp add: ex_store1_value logs_capped_def)
  have d: "drop 50 (map (\<lambda>c. clickData (fst c) (snd c)) (ex_clicks 150)) =
             map (\<lambda>i. clickData ex_meta (70000 + int i)) [50..<150]"
    by (simp add: ex_clicks_def drop_map comp_def)
  show ?thesis
    using event_log_capped [of ex_store1 "''abc''" _ ex_meta 70000 ex_data_a "ex_clicks 150"]
      ex_store1_expired e l d
    by (simp add: ex_clicks_def)
qed

subsection \<open>The cache's keys are keys of the record map\<close>

lemma set_keys_set: "set (jsmap_keys (jsmap_set m k v)) = insert k (set (jsmap_keys m))"
  by (auto simp: jsmap_keys_set)

lemma set_keys_delete: "set (jsmap_keys (jsmap_delete m k)) = set (jsmap_keys m) - {k}"
  by (auto simp: jsmap_keys_delete)

lemma jsmap_get_key: "jsmap_get m k = Some v \<Longrightarrow> k \<in> set (jsmap_keys m)"
  by (auto simp: jsmap_get_def jsmap_keys_def dest: map_of_SomeD intro: rev_image_eqI)

lemma addToCache_keys:
  "set (jsmap_keys (cache (addToCache s code r))) \<subseteq> insert code (set (jsmap_keys (cache s)))"
  by (auto simp: addToCache_def Let_def set_keys_set set_keys_delete split: option.splits)

lemma addToCache_urls: "urls (addToCache s code r) = urls s"
  by (simp add: addToCache_def Let_def)

lemma within_storeUrl:
  "set (jsmap_keys (cache s)) \<subseteq> set (jsmap_keys (urls s)) \<Longrightarrow>
   set (jsmap_keys (cache (snd (storeUrl s code urlData now))))
     \<subseteq> set (jsmap_keys (urls (snd (storeUrl s code urlData now))))"
  by (auto simp: storeUrl_def Let_def set_keys_set simp del: jsmap_set.simps)

lemma within_getUrl_record:
  "set (jsmap_keys (cache s)) \<subseteq> set (jsmap_keys (urls s)) \<Longrightarrow>
   set (jsmap_keys (cache (snd (getUrl_record s code now))))
     \<subseteq> set (jsmap_keys (urls (snd (getUrl_record s code now))))"
  using addToCache_keys [of s code]
  by (auto simp: getUrl_record_def set_keys_set addToCache_urls simp del: jsmap_set.simps
      split: option.splits dest: jsmap_get_key)

lemma within_getUrl:
  assumes "set (jsmap_keys (cache s)) \<subseteq> set (jsmap_keys (urls s))"
  shows "set (jsmap_keys (cache (snd (getUrl s code now))))
           \<subseteq> set (jsmap_keys (urls (snd (getUrl s code now))))"
proof -
  let ?s = "s\<lparr> cache := jsmap_delete (cache s) code \<rparr>"
  have "set (jsmap_keys (cache ?s)) \<subseteq> set (jsmap_keys (urls ?s))"
    using assms by (auto simp: set_keys_delete)
  then have "set (jsmap_keys (cache (snd (getUrl_record ?s code now))))
               \<subseteq> set (jsmap_keys (urls (snd (getUrl_record ?s code now))))"
    by (rule within_getUrl_record)
  with assms within_getUrl_record [OF assms, of code now] show ?thesis
    by (simp add: getUrl_def split: option.splits)
qed

lemma within_recordClick:
  "set (jsmap_keys (cache s)) \<subseteq> set (jsmap_keys (urls s)) \<Longrightarrow>
   set (jsmap_keys (cache (snd (recordClick s code metadata now))))
     \<subseteq> set (jsmap_keys (urls (snd (recordClick s code metadata now))))"
  by (auto simp: recordClick_def Let_def set_keys_set jsmap_has_keys simp del: jsmap_set.simps
      split: option.splits)

lemma within_cleanup:
  "set (jsmap_keys (cache s)) \<subseteq> set (jsmap_keys (urls s)) \<Longrightarrow>
   set (jsmap_keys (cache (snd (cleanupExpiredUrls s now))))
     \<subseteq> set (jsmap_keys (urls (snd (cleanupExpiredUrls s now))))"
  by (auto simp: cleanupExpiredUrls_def cleanup_loop_result jsmap_keys_filter)

text \<open>
  C10: in a new store every key of the cache is a key of the record map (it has none), and
  each of \<^verbatim>\<open>storeUrl\<close>, \<^verbatim>\<open>getUrl\<close>, \<^verbatim>\<open>recordClick\<close> and
  \<^verbatim>\<open>cleanupExpiredUrls\<close>, with any arguments, keeps it so.
\<close>

theorem cache_keys_within_urls:
  "set (jsmap_keys (cache (MemoryStore_new now0))) \<subseteq> set (jsmap_keys (urls (MemoryStore_new now0)))
   \<and> (set (jsmap_keys (cache s)) \<subseteq> set (jsmap_keys (urls s)) \<longrightarrow>
        set (jsmap_keys (cache (snd (storeUrl s code urlData now))))
          \<subseteq> set (jsmap_keys (urls (snd (storeUrl s code urlData now))))
        \<and> set (jsmap_keys (cache (snd (getUrl s code now))))
          \<subseteq> set (jsmap_keys (urls (snd (getUrl s code now))))
        \<and> set (jsmap_keys (cache (snd (recordClick s code metadata now))))
          \<subseteq> set (jsmap_keys (urls (snd (recordClick s code metadata now))))
        \<and> set (jsmap_keys (cache (snd (cleanupExpiredUrls s now))))
          \<subseteq> set (jsmap_keys (urls (snd (cleanupExpiredUrls s now)))))"
  using within_storeUrl [of s code urlData now] within_getUrl [of s code now]
    within_recordClick [of s code metadata now] within_cleanup [of s now]
  by (simp add: MemoryStore_new_def jsmap_keys_def)


lemma clickData_ex_meta: "clickData ex_meta t = ex_event t"
  by (simp add: clickData_def ex_meta_def getCountryFromIp_def ex_event_def)

lemma ex_store_hot_value:
  "ex_store_hot =
     \<lparr> urls = [(''hot'', ex_hot_record)],
       analytics = [(''hot'', map ex_event [70000, 70001, 70002, 70003, 70004, 70005])],
       cache = [(''hot'', ex_hot_record)],
       cacheSize = 1000,
       stats = \<lparr> totalUrls = 1, totalClicks = 6, createdToday = 1, lastCleanup = 0 \<rparr> \<rparr>"
  by (simp add: ex_store_hot_def ex_clicks_def upt_conv_Cons storeUrl_def Let_def
      MemoryStore_new_def ex_data_b_def recordClick_def jsmap_get_def jsmap_has_def getUrl_def
      getUrl_record_def addToCache_def jsmap_size_def clickData_ex_meta push_capped_def
      ex_hot_record_def)

theorem cache_keys_within_urls_witness:
  "set (jsmap_keys (cache ex_store_hot)) \<subseteq> set (jsmap_keys (urls ex_store_hot))
   \<and> jsmap_keys (cache ex_store_hot) = [''hot'']
   \<and> set (jsmap_keys (cache (snd (storeUrl ex_store_hot ''hot'' ex_data_a 1800000))))
          \<subseteq> set (jsmap_keys (urls (snd (storeUrl ex_store_hot ''hot'' ex_data_a 1800000))))
   \<and> set (jsmap_keys (cache (snd (getUrl ex_store_hot ''hot'' 1800000))))
          \<subseteq> set (jsmap_keys (urls (snd (getUrl ex_store_hot ''hot'' 1800000))))
   \<and> set (jsmap_keys (cache (snd (recordClick ex_store_hot ''hot'' ex_meta 1800000))))
          \<subseteq> set (jsmap_keys (urls (snd (recordClick ex_store_hot ''hot'' ex_meta 1800000))))
   \<and> set (jsmap_keys (cache (snd (cleanupExpiredUrls ex_store_hot 1800000))))
          \<subseteq> set (jsmap_keys (urls (snd (cleanupExpiredUrls ex_store_hot 1800000))))"
proof -
  have k: "jsmap_keys (cache ex_store_hot) = [''hot'']" "jsmap_keys (urls ex_store_hot) = [''hot'']"
    by (simp_all add: ex_store_hot_value jsmap_keys_def)
  then have "set (jsmap_keys (cache ex_store_hot)) \<subseteq> set (jsmap_keys (urls ex_store_hot))"
    by simp
  with cache_keys_within_urls [of 0 ex_store_hot "''hot''" ex_data_a 1800000 ex_meta] k
  show ?thesis by simp
qed

subsection \<open>Two invariants of the store\<close>

lemma distinct_keys_set: "distinct (jsmap_keys m) \<Longrightarrow> distinct (jsmap_keys (jsmap_set m k v))"
  by (simp add: jsmap_keys_set)

lemma distinct_keys_delete: "distinct (jsmap_keys m) \<Longrightarrow> distinct (jsmap_keys (jsmap_delete m k))"
  by (simp add: jsmap_keys_delete)

lemma distinct_keys_filter:
  "distinct (jsmap_keys m) \<Longrightarrow> distinct (jsmap_keys (filter (\<lambda>e. fst e \<notin> D) m))"
  by (simp add: jsmap_keys_filter)

lemma addToCache_fields:
  "analytics (addToCache s code r) = analytics s" "urls (addToCache s code r) = urls s"
  "cacheSize (addToCache s code r) = cacheSize s"
  by (simp_all add: addToCache_def Let_def)

lemma addToCache_distinct:
  "distinct (jsmap_keys (cache s)) \<Longrightarrow> distinct (jsmap_keys (cache (addToCache s code r)))"
  by (simp add: addToCache_def Let_def distinct_keys_set distinct_keys_delete split: option.splits)

lemma keys_distinct_storeUrl:
  "keys_distinct s \<Longrightarrow> keys_distinct (snd (storeUrl s code urlData now))"
  by (simp add: keys_distinct_def storeUrl_def Let_def distinct_keys_set del: jsmap_set.simps)

lemma keys_distinct_getUrl_record:
  "keys_distinct s \<Longrightarrow> keys_distinct (snd (getUrl_record s code now))"
  by (simp add: keys_distinct_def getUrl_record_def distinct_keys_set addToCache_fields
      addToCache_distinct del: jsmap_set.simps split: option.splits)

lemma keys_distinct_getUrl: "keys_distinct s \<Longrightarrow> keys_distinct (snd (getUrl s code now))"
proof -
  assume a: "keys_distinct s"
  then have "keys_distinct (s\<lparr> cache := jsmap_delete (cache s) code \<rparr>)"
    by (simp add: keys_distinct_def distinct_keys_delete)
  then have "keys_distinct (snd (getUrl_record (s\<lparr> cache := jsmap_delete (cache s) code \<rparr>) code now))"
    by (rule keys_distinct_getUrl_record)
  with a keys_distinct_getUrl_record [OF a, of code now] show ?thesis
    by (simp add: getUrl_def split: option.splits)
qed

lemma keys_distinct_recordClick:
  "keys_distinct s \<Longrightarrow> keys_distinct (snd (recordClick s code metadata now))"
  by (simp add: keys_distinct_def recordClick_def Let_def distinct_keys_set
      del: jsmap_set.simps split: option.splits)

lemma keys_distinct_cleanup:
  "keys_distinct s \<Longrightarrow> keys_distinct (snd (cleanupExpiredUrls s now))"
  by (simp add: keys_distinct_def cleanupExpiredUrls_def cleanup_loop_result distinct_keys_filter)

lemma cache_coherent_iff:
  "cache_coherent s =
     (\<forall>e \<in> set (cache s). \<exists>r. jsmap_get (urls s) (fst e) = Some r \<and> expiresAt r = expiresAt (snd e))"
  by (auto simp: cache_coherent_def list_all_iff split: option.splits)

lemma jsmap_get_entry: "jsmap_get m k = Some v \<Longrightarrow> (k, v) \<in> set m"
  by (simp add: jsmap_get_def map_of_SomeD)

lemma coherent_cached:
  "cache_coherent s \<Longrightarrow> jsmap_get (cache s) code = Some c \<Longrightarrow>
     \<exists>r. jsmap_get (urls s) code = Some r \<and> expiresAt r = expiresAt c"
  by (fastforce simp: cache_coherent_iff dest: jsmap_get_entry)

lemma coherent_storeUrl:
  assumes "cache_coherent s" and "\<not> exists s code"
  shows "cache_coherent (snd (storeUrl s code urlData now))"
  using assms
  by (auto simp: cache_coherent_iff storeUrl_def Let_def jsmap_get_set exists_def jsmap_has_get
      simp del: jsmap_set.simps)

lemma coherent_cache_subset:
  assumes "cache_coherent s" and "set c' \<subseteq> set (cache s)"
  shows "cache_coherent (s\<lparr> cache := c' \<rparr>)"
  using assms by (auto simp: cache_coherent_iff)

lemma coherent_addToCache:
  assumes "cache_coherent s" and "jsmap_get (urls s) code = Some r"
  shows "cache_coherent (addToCache s code r)"
proof -
  let ?c = "if jsmap_size (cache s) \<ge> cacheSize s
            then (case jsmap_first_key (cache s) of
                    None \<Rightarrow> cache s
                  | Some firstKey \<Rightarrow> jsmap_delete (cache s) firstKey)
            else cache s"
  have "set ?c \<subseteq> set (cache s)"
    using jsmap_delete_entries [of "cache s"] by (auto split: option.splits)
  then have "set (jsmap_set ?c code r) \<subseteq> insert (code, r) (set (cache s))"
    using jsmap_set_entries [of ?c code r] by blast
  then show ?thesis
    using assms by (fastforce simp: cache_coherent_iff addToCache_def Let_def)
qed

lemma coherent_urls_update:
  assumes "cache_coherent s" and "jsmap_get (urls s) code = Some r" and "expiresAt r' = expiresAt r"
  shows "cache_coherent (s\<lparr> urls := jsmap_set (urls s) code r' \<rparr>)"
  using assms by (auto simp: cache_coherent_iff jsmap_get_set simp del: jsmap_set.simps)

lemma coherent_getUrl_record:
  assumes "cache_coherent s"
  shows "cache_coherent (snd (getUrl_record s code now))"
proof (cases "jsmap_get (urls s) code")
  case None
  with assms show ?thesis by (simp add: getUrl_record_def)
next
  case (Some r)
  show ?thesis
    using assms Some coherent_urls_update [OF assms Some, of "r\<lparr> isActive := False \<rparr>"]
      coherent_addToCache [OF assms Some]
    by (simp add: getUrl_record_def)
qed

lemma coherent_getUrl:
  assumes "cache_coherent s"
  shows "cache_coherent (snd (getUrl s code now))"
proof -
  have "cache_coherent (s\<lparr> cache := jsmap_delete (cache s) code \<rparr>)"
    using assms jsmap_delete_entries by (rule coherent_cache_subset)
  then have "cache_coherent (snd (getUrl_record (s\<lparr> cache := jsmap_delete (cache s) code \<rparr>) code now))"
    by (rule coherent_getUrl_record)
  with assms coherent_getUrl_record [OF assms, of code now] show ?thesis
    by (simp add: getUrl_def split: option.splits)
qed

lemma coherent_recordClick:
  assumes "cache_coherent s"
  shows "cache_coherent (snd (recordClick s code metadata now))"
proof (cases "jsmap_get (urls s) code")
  case None
  with assms show ?thesis by (simp add: recordClick_def)
next
  case (Some r)
  let ?r = "r\<lparr> clickCount := clickCount r + 1, lastAccessed := Some now \<rparr>"
  have "set (jsmap_set (cache s) code ?r) \<subseteq> insert (code, ?r) (set (cache s))"
    by (rule jsmap_set_entries)
  then show ?thesis
    using assms Some
    by (fastforce simp: recordClick_def Let_def cache_coherent_iff jsmap_get_set
        simp del: jsmap_set.simps)
qed

lemma coherent_cleanup:
  "cache_coherent s \<Longrightarrow> cache_coherent (snd (cleanupExpiredUrls s now))"
  by (auto simp: cache_coherent_iff cleanupExpiredUrls_def cleanup_loop_result
      jsmap_get_filter_keys)

lemma reachable_invariants:
  "reachable s \<Longrightarrow>
     keys_distinct s \<and> set (jsmap_keys (cache s)) \<subseteq> set (jsmap_keys (urls s))"
proof (induction rule: reachable.induct)
  case (reachable_new now)
  show ?case
    by (simp add: keys_distinct_def MemoryStore_new_def jsmap_keys_def)
next
  case (reachable_storeUrl s code urlData now)
  then show ?case by (simp add: keys_distinct_storeUrl within_storeUrl)
next
  case (reachable_getUrl s code now)
  then show ?case by (simp add: keys_distinct_getUrl within_getUrl)
next
  case (reachable_recordClick s code metadata now)
  then show ?case by (simp add: keys_distinct_recordClick within_recordClick)
next
  case (reachable_cleanup s now)
  then show ?case by (simp add: keys_distinct_cleanup within_cleanup)
qed

subsection \<open>Reading a record\<close>

lemma getUrl_record_absent:
  "(fst (getUrl_record s code now) = None) =
     (jsmap_get (urls s) code = None
      \<or> (\<exists>r. jsmap_get (urls s) code = Some r \<and> expiresAt r \<le> now))"
  by (auto simp: getUrl_record_def split: option.splits)

lemma getUrl_absent_general:
  "(fst (getUrl s code now) = None) =
     (\<not> live_snapshot s code now
      \<and> (jsmap_get (urls s) code = None
          \<or> (\<exists>r. jsmap_get (urls s) code = Some r \<and> expiresAt r \<le> now)))"
proof (cases "jsmap_get (cache s) code")
  case None
  then show ?thesis by (simp add: getUrl_def live_snapshot_def getUrl_record_absent)
next
  case (Some c)
  show ?thesis
  proof (cases "expiresAt c > now")
    case True
    with Some show ?thesis by (simp add: getUrl_def live_snapshot_def)
  next
    case False
    with Some show ?thesis by (simp add: getUrl_def live_snapshot_def getUrl_record_absent)
  qed
qed

lemma coherent_live_snapshot:
  assumes "cache_coherent s" and "live_snapshot s code now"
  shows "\<exists>r. jsmap_get (urls s) code = Some r \<and> expiresAt r > now"
proof -
  from assms(2) obtain c where c: "jsmap_get (cache s) code = Some c" "expiresAt c > now"
    by (auto simp: live_snapshot_def split: option.splits)
  with coherent_cached [OF assms(1) c(1)] show ?thesis by auto
qed

lemma getUrl_absent:
  assumes "cache_coherent s"
  shows "(fst (getUrl s code now) = None) =
           (jsmap_get (urls s) code = None
            \<or> (\<exists>r. jsmap_get (urls s) code = Some r \<and> expiresAt r \<le> now))"
  using coherent_live_snapshot [OF assms, of code now]
  by (auto simp: getUrl_absent_general)

lemma getUrl_expired:
  assumes "\<not> live_snapshot s code now" and "jsmap_get (urls s) code = Some r"
    and "expiresAt r \<le> now"
  shows "fst (getUrl s code now) = None"
    and "urls (snd (getUrl s code now)) = jsmap_set (urls s) code (r\<lparr> isActive := False \<rparr>)"
    and "analytics (snd (getUrl s code now)) = analytics s"
proof -
  show "fst (getUrl s code now) = None"
    using assms by (simp add: getUrl_absent_general)
  show "urls (snd (getUrl s code now)) = jsmap_set (urls s) code (r\<lparr> isActive := False \<rparr>)"
    using assms
    by (auto simp: getUrl_def getUrl_record_def live_snapshot_def simp del: jsmap_set.simps
        split: option.splits)
  show "analytics (snd (getUrl s code now)) = analytics s"
    by (rule getUrl_analytics)
qed

lemma ex_store_stale_value:
  "ex_store_stale =
     \<lparr> urls = [(''hot'', ex_record_new)],
       analytics = [(''hot'', [])],
       cache = [(''hot'', ex_hot_record)],
       cacheSize = 1000,
       stats = \<lparr> totalUrls = 2, totalClicks = 6, createdToday = 2, lastCleanup = 0 \<rparr> \<rparr>"
  by (simp add: ex_store_stale_def ex_store_hot_value storeUrl_def Let_def ex_data_a_def
      ex_record_new_def)

text \<open>
  The hot key's record replaced by \<^verbatim>\<open>storeUrl\<close>: the new record expires at 60200, and
  at 70000 \<^verbatim>\<open>getUrl\<close> still returns the old record, from the cache.
\<close>

theorem getUrl_stale_counterexample:
  "jsmap_get (urls ex_store_stale) ''hot'' = Some ex_record_new
   \<and> expiresAt ex_record_new = 60200
   \<and> getUrl ex_store_stale ''hot'' 70000 = (Some ex_hot_record, ex_store_stale)
   \<and> originalUrl ex_hot_record = ''https://b.example''
   \<and> \<not> cache_coherent ex_store_stale"
  by (simp add: ex_store_stale_value jsmap_get_def getUrl_def ex_hot_record_def ex_record_new_def
      cache_coherent_def)

text \<open>
  C5, as the code has it. \<^verbatim>\<open>getUrl\<close> returns \<^verbatim>\<open>null\<close> exactly when the cache has no
  unexpired entry under the shortcode and the shortcode has no record or its record's
  \<^verbatim>\<open>expiresAt\<close> is at most \<open>now\<close>. In a store whose cache entries carry the expiry of
  their records, that is exactly: no record, or a record whose \<^verbatim>\<open>expiresAt\<close> is at most
  \<open>now\<close>. On the expired path the record stays under its key, now marked inactive, no key
  of the record map goes, and the event logs are as they were. A new store is such a
  store, and \<^verbatim>\<open>getUrl\<close>, \<^verbatim>\<open>recordClick\<close>, \<^verbatim>\<open>cleanupExpiredUrls\<close> and
  \<^verbatim>\<open>storeUrl\<close> with a shortcode that is not present keep it one.
\<close>

theorem getUrl_absent_iff:
  "(fst (getUrl s code now) = None) =
     (\<not> live_snapshot s code now
      \<and> (jsmap_get (urls s) code = None
          \<or> (\<exists>r. jsmap_get (urls s) code = Some r \<and> expiresAt r \<le> now)))
   \<and> (cache_coherent s \<longrightarrow>
        (fst (getUrl s code now) = None) =
          (jsmap_get (urls s) code = None
           \<or> (\<exists>r. jsmap_get (urls s) code = Some r \<and> expiresAt r \<le> now)))
   \<and> (jsmap_get (urls s) code = Some r \<and> expiresAt r \<le> now \<and> \<not> live_snapshot s code now \<longrightarrow>
        fst (getUrl s code now) = None
        \<and> jsmap_get (urls (snd (getUrl s code now))) code = Some (r\<lparr> isActive := False \<rparr>)
        \<and> jsmap_keys (urls (snd (getUrl s code now))) = jsmap_keys (urls s)
        \<and> analytics (snd (getUrl s code now)) = analytics s)
   \<and> cache_coherent (MemoryStore_new now0)
   \<and> (cache_coherent s \<longrightarrow>
        cache_coherent (snd (getUrl s code' now))
        \<and> cache_coherent (snd (recordClick s code' metadata now))
        \<and> cache_coherent (snd (cleanupExpiredUrls s now))
        \<and> (\<not> exists s code' \<longrightarrow> cache_coherent (snd (storeUrl s code' urlData now))))"
proof (intro conjI impI)
  show "(fst (getUrl s code now) = None) =
     (\<not> live_snapshot s code now
      \<and> (jsmap_get (urls s) code = None
          \<or> (\<exists>r. jsmap_get (urls s) code = Some r \<and> expiresAt r \<le> now)))"
    by (rule getUrl_absent_general)
next
  assume "cache_coherent s"
  then show "(fst (getUrl s code now) = None) =
          (jsmap_get (urls s) code = None
           \<or> (\<exists>r. jsmap_get (urls s) code = Some r \<and> expiresAt r \<le> now))"
    by (rule getUrl_absent)
next
  assume a: "jsmap_get (urls s) code = Some r \<and> expiresAt r \<le> now \<and> \<not> live_snapshot s code now"
  then have r: "jsmap_get (urls s) code = Some r" and e: "expiresAt r \<le> now"
    and l: "\<not> live_snapshot s code now" by simp_all
  show "fst (getUrl s code now) = None"
    using l r e by (rule getUrl_expired(1))
  have u: "urls (snd (getUrl s code now)) = jsmap_set (urls s) code (r\<lparr> isActive := False \<rparr>)"
    using l r e by (rule getUrl_expired(2))
  show "jsmap_get (urls (snd (getUrl s code now))) code = Some (r\<lparr> isActive := False \<rparr>)"
    by (simp add: u jsmap_get_set)
  show "jsmap_keys (urls (snd (getUrl s code now))) = jsmap_keys (urls s)"
    using jsmap_get_key [OF r] by (simp add: u jsmap_keys_set)
  show "analytics (snd (getUrl s code now)) = analytics s"
    by (rule getUrl_analytics)
next
  show "cache_coherent (MemoryStore_new now0)"
    by (simp add: cache_coherent_def MemoryStore_new_def)
next
  assume c: "cache_coherent s"
  then show "cache_coherent (snd (getUrl s code' now))"
    by (rule coherent_getUrl)
  from c show "cache_coherent (snd (recordClick s code' metadata now))"
    by (rule coherent_recordClick)
  from c show "cache_coherent (snd (cleanupExpiredUrls s now))"
    by (rule coherent_cleanup)
  { assume "\<not> exists s code'"
    with c show "cache_coherent (snd (storeUrl s code' urlData now))"
      by (rule coherent_storeUrl) }
qed

lemma ex_store_hot_coherent: "cache_coherent ex_store_hot"
  by (simp add: ex_store_hot_value cache_coherent_def jsmap_get_def)

lemma ex_store_hot_record: "jsmap_get (urls ex_store_hot) ''hot'' = Some ex_hot_record"
  by (simp add: ex_store_hot_value jsmap_get_def)

theorem getUrl_absent_iff_witness:
  "cache_coherent ex_store_hot
   \<and> jsmap_get (urls ex_store_hot) ''hot'' = Some ex_hot_record
   \<and> expiresAt ex_hot_record \<le> 1800000
   \<and> \<not> live_snapshot ex_store_hot ''hot'' 1800000
   \<and> fst (getUrl ex_store_hot ''hot'' 1800000) = None
   \<and> jsmap_get (urls (snd (getUrl ex_store_hot ''hot'' 1800000))) ''hot'' =
        Some (ex_hot_record\<lparr> isActive := False \<rparr>)
   \<and> analytics (snd (getUrl ex_store_hot ''hot'' 1800000)) = analytics ex_store_hot
   \<and> fst (getUrl ex_store_hot ''hot'' 1799999) \<noteq> None
   \<and> fst (getUrl ex_store_hot ''nope'' 5) = None
   \<and> \<not> exists ex_store_hot ''abc''
   \<and> cache_coherent (snd (storeUrl ex_store_hot ''abc'' ex_data_a 200))
   \<and> cache_coherent (snd (getUrl ex_store_hot ''hot'' 1800000))
   \<and> live_snapshot ex_store_stale ''hot'' 70000
   \<and> fst (getUrl ex_store_stale ''hot'' 70000) \<noteq> None"
proof -
  have e: "expiresAt ex_hot_record = 1800000" by (simp add: ex_hot_record_def)
  have n: "jsmap_get (urls ex_store_hot) ''nope'' = None"
    by (simp add: ex_store_hot_value jsmap_get_def)
  have x: "\<not> exists ex_store_hot ''abc''"
    by (simp add: ex_store_hot_value exists_def jsmap_has_def)
  have l: "\<not> live_snapshot ex_store_hot ''hot'' 1800000"
    "live_snapshot ex_store_stale ''hot'' 70000"
    by (simp_all add: ex_store_hot_value ex_store_stale_value live_snapshot_def jsmap_get_def e)
  note t1 = getUrl_absent_iff [where s = ex_store_hot and code = "''hot''" and now = 1800000
      and r = ex_hot_record and now0 = 0 and code' = "''hot''" and metadata = ex_meta
      and urlData = ex_data_a]
  note t2 = getUrl_absent_iff [where s = ex_store_hot and code = "''hot''" and now = 1799999
      and r = ex_hot_record and now0 = 0 and code' = "''hot''" and metadata = ex_meta
      and urlData = ex_data_a]
  note t3 = getUrl_absent_iff [where s = ex_store_hot and code = "''nope''" and now = 200
      and r = ex_hot_record and now0 = 0 and code' = "''abc''" and metadata = ex_meta
      and urlData = ex_data_a]
  note t4 = getUrl_absent_iff [where s = ex_store_stale and code = "''hot''" and now = 70000
      and r = ex_record_new and now0 = 0 and code' = "''hot''" and metadata = ex_meta
      and urlData = ex_data_a]
  have 1: "fst (getUrl ex_store_hot ''hot'' 1800000) = None
     \<and> jsmap_get (urls (snd (getUrl ex_store_hot ''hot'' 1800000))) ''hot'' =
         Some (ex_hot_record\<lparr> isActive := False \<rparr>)
     \<and> analytics (snd (getUrl ex_store_hot ''hot'' 1800000)) = analytics ex_store_hot
     \<and> cache_coherent (snd (getUrl ex_store_hot ''hot'' 1800000))"
    using t1 ex_store_hot_coherent ex_store_hot_record e l(1) by simp
  have 2: "fst (getUrl ex_store_hot ''hot'' 1799999) \<noteq> None"
    using t2 ex_store_hot_coherent ex_store_hot_record e by simp
  have 3: "cache_coherent (snd (storeUrl ex_store_hot ''abc'' ex_data_a 200))"
    using t3 ex_store_hot_coherent x by simp
  have 4: "fst (getUrl ex_store_hot ''nope'' 5) = None"
    using getUrl_absent_iff [where s = ex_store_hot and code = "''nope''" and now = 5
        and r = ex_hot_record and now0 = 0 and code' = "''abc''" and metadata = ex_meta
        and urlData = ex_data_a] ex_store_hot_coherent n
    by simp
  have 5: "fst (getUrl ex_store_stale ''hot'' 70000) \<noteq> None"
    using t4 l(2) by simp
  from 1 2 3 4 5 ex_store_hot_coherent ex_store_hot_record e l x show ?thesis by simp
qed

subsection \<open>An expired record that the sweep has not reached\<close>

text \<open>
  The same store at 65000: the record under the key is expired and still there,
  \<^verbatim>\<open>exists\<close> is true, and \<^verbatim>\<open>getUrl\<close> returns a record, the old one.
\<close>

theorem expired_stale_counterexample:
  "jsmap_get (urls ex_store_stale) ''hot'' = Some ex_record_new
   \<and> expiresAt ex_record_new \<le> 65000
   \<and> exists ex_store_stale ''hot''
   \<and> fst (getUrl ex_store_stale ''hot'' 65000) = Some ex_hot_record
   \<and> fst (getUrl ex_store_stale ''hot'' 65000) \<noteq> None"
  by (simp add: ex_store_stale_value jsmap_get_def getUrl_def ex_hot_record_def ex_record_new_def
      exists_def jsmap_has_def)

text \<open>
  C9, as the code has it: for a record that is expired and still in the record map,
  \<^verbatim>\<open>exists\<close> is true and a create request that supplies the shortcode is rejected with
  the conflict error; \<^verbatim>\<open>getUrl\<close> returns \<^verbatim>\<open>null\<close> for it exactly when the cache has
  no unexpired entry under the shortcode, and so in every store whose cache entries carry
  the expiry of their records.
\<close>

theorem expired_exists_conflict:
  assumes "jsmap_get (urls s) code = Some r" and "expiresAt r \<le> now"
  shows "exists s code
         \<and> (code \<noteq> [] \<longrightarrow>
              post_api_urls md5_hex env g s (body\<lparr> body_shortcode := Some code \<rparr>) now =
                Inl (ConflictError (''Shortcode '' @ [CHR 0x27] @ code @ [CHR 0x27]
                                     @ '' is already taken'')))
         \<and> (fst (getUrl s code now) = None) = (\<not> live_snapshot s code now)
         \<and> (cache_coherent s \<longrightarrow> fst (getUrl s code now) = None)"
proof (intro conjI impI)
  show x: "exists s code"
    using assms(1) by (simp add: exists_def jsmap_has_get)
  show "(fst (getUrl s code now) = None) = (\<not> live_snapshot s code now)"
    using assms by (simp add: getUrl_absent_general)
  { assume "cache_coherent s"
    then show "fst (getUrl s code now) = None"
      using assms by (simp add: getUrl_absent) }
  assume "code \<noteq> []"
  then obtain c cs where "code = c # cs" by (cases code) auto
  with x show "post_api_urls md5_hex env g s (body\<lparr> body_shortcode := Some code \<rparr>) now =
                Inl (ConflictError (''Shortcode '' @ [CHR 0x27] @ code @ [CHR 0x27]
                                     @ '' is already taken''))"
    by (simp add: post_api_urls_custom)
qed

theorem expired_exists_conflict_witness:
  "cache_coherent ex_store_hot
   \<and> jsmap_get (urls ex_store_hot) ''hot'' = Some ex_hot_record
   \<and> expiresAt ex_hot_record \<le> 1800000
   \<and> exists ex_store_hot ''hot''
   \<and> fst (getUrl ex_store_hot ''hot'' 1800000) = None
   \<and> post_api_urls id ex_env ex_gen ex_store_hot (ex_body (Some ''hot'')) 1800000 =
        Inl (ConflictError (''Shortcode '' @ [CHR 0x27] @ ''hot'' @ [CHR 0x27]
                             @ '' is already taken''))
   \<and> jsmap_get (urls ex_store_stale) ''hot'' = Some ex_record_new
   \<and> expiresAt ex_record_new \<le> 65000
   \<and> exists ex_store_stale ''hot''
   \<and> live_snapshot ex_store_stale ''hot'' 65000
   \<and> fst (getUrl ex_store_stale ''hot'' 65000) \<noteq> None
   \<and> post_api_urls id ex_env ex_gen ex_store_stale (ex_body (Some ''hot'')) 65000 =
        Inl (ConflictError (''Shortcode '' @ [CHR 0x27] @ ''hot'' @ [CHR 0x27]
                             @ '' is already taken''))"
proof -
  have e: "expiresAt ex_hot_record \<le> 1800000" "expiresAt ex_record_new \<le> 65000"
    by (simp_all add: ex_hot_record_def ex_record_new_def)
  have b: "(ex_body None)\<lparr> body_shortcode := Some ''hot'' \<rparr> = ex_body (Some ''hot'')"
    by (simp add: ex_body_def)
  have n: "jsmap_get (urls ex_store_stale) ''hot'' = Some ex_record_new"
    by (simp add: ex_store_stale_value jsmap_get_def)
  have l: "live_snapshot ex_store_stale ''hot'' 65000"
    by (simp add: ex_store_stale_value live_snapshot_def jsmap_get_def ex_hot_record_def)
  have 1: "exists ex_store_hot ''hot''
     \<and> fst (getUrl ex_store_hot ''hot'' 1800000) = None
     \<and> post_api_urls id ex_env ex_gen ex_store_hot (ex_body (Some ''hot'')) 1800000 =
        Inl (ConflictError (''Shortcode '' @ [CHR 0x27] @ ''hot'' @ [CHR 0x27]
                             @ '' is already taken''))"
    using expired_exists_conflict [OF ex_store_hot_record e(1),
        where md5_hex = id and env = ex_env and g = ex_gen and body = "ex_body None"]
      ex_store_hot_coherent b
    by simp
  have 2: "exists ex_store_stale ''hot''
     \<and> fst (getUrl ex_store_stale ''hot'' 65000) \<noteq> None
     \<and> post_api_urls id ex_env ex_gen ex_store_stale (ex_body (Some ''hot'')) 65000 =
        Inl (ConflictError (''Shortcode '' @ [CHR 0x27] @ ''hot'' @ [CHR 0x27]
                             @ '' is already taken''))"
    using expired_exists_conflict [OF n e(2),
        where md5_hex = id and env = ex_env and g = ex_gen and body = "ex_body None"]
      l b
    by simp
  from 1 2 ex_store_hot_coherent ex_store_hot_record e n l show ?thesis by simp
qed

subsection \<open>How long a shortcode stays with its record\<close>

text \<open>
  A record created at 0 for one minute, swept at 60000; the same shortcode, supplied by a
  create request at 60001, is accepted and bound to a new record.
\<close>

theorem shortcode_reuse_counterexample:
  "bound_to ex_store1 ''abc''
     \<lparr> shortcode = ''abc'', originalUrl = ''https://a.example'', description = [],
       createdAt = 0, expiresAt = 60000, isActive = True, clickCount = 0, lastAccessed = None \<rparr>
   \<and> cleanupExpiredUrls ex_store1 60000 =
        (1, \<lparr> urls = [], analytics = [], cache = [], cacheSize = 1000,
              stats = \<lparr> totalUrls = 1, totalClicks = 0, createdToday = 1, lastCleanup = 60000 \<rparr> \<rparr>)
   \<and> (case post_api_urls id ex_env ex_gen (snd (cleanupExpiredUrls ex_store1 60000))
              (ex_body (Some ''abc'')) 60001 of
         Inl e \<Rightarrow> False
       | Inr (r, g, s) \<Rightarrow>
           r = \<lparr> shortcode = ''abc'', originalUrl = ''https://b.example'', description = [],
                 createdAt = 60001, expiresAt = 1860001, isActive = True, clickCount = 0,
                 lastAccessed = None \<rparr>
           \<and> jsmap_get (urls s) ''abc'' = Some r)"
  by (simp add: ex_store1_value bound_to_def same_record_def jsmap_get_def cleanupExpiredUrls_def
      jsmap_delete_def post_api_urls_def truthy_string_def ex_body_def exists_def jsmap_has_def
      store_record_def storeUrl_def Let_def)

lemma same_record_refl: "same_record r r"
  by (simp add: same_record_def)

lemma bound_getUrl_record:
  "bound_to s code r \<Longrightarrow> bound_to (snd (getUrl_record s code' now)) code r"
  by (auto simp: bound_to_def getUrl_record_def jsmap_get_set addToCache_fields same_record_def
      simp del: jsmap_set.simps split: option.splits)

lemma bound_getUrl: "bound_to s code r \<Longrightarrow> bound_to (snd (getUrl s code' now)) code r"
  using bound_getUrl_record [of s code r code' now]
    bound_getUrl_record [of "s\<lparr> cache := jsmap_delete (cache s) code' \<rparr>" code r code' now]
  by (simp add: getUrl_def bound_to_def split: option.splits)

lemma bound_recordClick:
  "bound_to s code r \<Longrightarrow> bound_to (snd (recordClick s code' metadata now)) code r"
  by (auto simp: bound_to_def recordClick_def Let_def jsmap_get_set same_record_def
      simp del: jsmap_set.simps split: option.splits)

lemma bound_custom_create:
  assumes "bound_to s code r"
    and "post_api_urls md5_hex env g s (body\<lparr> body_shortcode := Some (c # cs) \<rparr>) now
           = Inr (r', g', s')"
  shows "bound_to s' code r \<and> c # cs \<noteq> code"
proof -
  have x: "\<not> exists s (c # cs)"
    using assms(2) by (auto simp: post_api_urls_custom split: if_splits)
  moreover have "exists s code"
    using assms(1) by (auto simp: bound_to_def exists_def jsmap_has_get split: option.splits)
  ultimately have ne: "c # cs \<noteq> code" by auto
  have "s' = snd (storeUrl s (c # cs)
                    \<lparr> url = body_url body, expiresIn = body_expiresIn body,
                      data_description = body_description body \<rparr> now)"
    using assms(2) x by (simp add: post_api_urls_custom)
  then show ?thesis
    using assms(1) ne
    by (simp add: bound_to_def storeUrl_def Let_def jsmap_get_set del: jsmap_set.simps)
qed

lemma distinct_entry_get:
  "distinct (jsmap_keys m) \<Longrightarrow> (k, v) \<in> set m \<Longrightarrow> jsmap_get m k = Some v"
  by (simp add: jsmap_get_def jsmap_keys_def)

lemma cleanup_urls:
  "jsmap_get (urls (snd (cleanupExpiredUrls s now))) code =
     (if code \<in> expired_keys (urls s) now then None else jsmap_get (urls s) code)"
  by (simp add: cleanupExpiredUrls_def cleanup_loop_result jsmap_get_filter_keys)

lemma expired_keys_distinct:
  assumes "distinct (jsmap_keys (urls s))" and "jsmap_get (urls s) code = Some r"
  shows "(code \<in> expired_keys (urls s) now) = (expiresAt r \<le> now)"
  using assms distinct_entry_get [OF assms(1)] jsmap_get_entry [OF assms(2)]
  by (fastforce simp: expired_keys_def)

text \<open>
  C2, as the code has it. While a record is in the store, \<^verbatim>\<open>getUrl\<close>,
  \<^verbatim>\<open>recordClick\<close> and a create request that supplies a shortcode leave its shortcode
  bound to it (a request supplying that shortcode fails), and so does a sweep before the
  record's expiry. A sweep at or after the expiry removes the record, and then the
  shortcode is free again: \<^verbatim>\<open>exists\<close> is false for it and a create request that
  supplies it is accepted and binds it to the new record.
\<close>

theorem shortcode_bound_while_stored:
  assumes "keys_distinct s" and "jsmap_get (urls s) code = Some r"
  shows "bound_to (snd (getUrl s code' now)) code r
         \<and> bound_to (snd (recordClick s code' metadata now)) code r
         \<and> (\<forall>r' g' s'.
               post_api_urls md5_hex env g s (body\<lparr> body_shortcode := Some (c # cs) \<rparr>) now
                 = Inr (r', g', s') \<longrightarrow> bound_to s' code r \<and> c # cs \<noteq> code)
         \<and> (expiresAt r > now \<longrightarrow>
               jsmap_get (urls (snd (cleanupExpiredUrls s now))) code = Some r)
         \<and> (expiresAt r \<le> now \<and> code = c # cs \<longrightarrow>
               \<not> exists (snd (cleanupExpiredUrls s now)) code
               \<and> (\<exists>r' s'.
                     post_api_urls md5_hex env g (snd (cleanupExpiredUrls s now))
                       (body\<lparr> body_shortcode := Some code \<rparr>) now' = Inr (r', g, s')
                     \<and> jsmap_get (urls s') code = Some r' \<and> createdAt r' = now'))"
proof -
  have b: "bound_to s code r"
    using assms(2) by (simp add: bound_to_def same_record_refl)
  have d: "distinct (jsmap_keys (urls s))"
    using assms(1) by (simp add: keys_distinct_def)
  note x = expired_keys_distinct [OF d assms(2), of now]
  have 1: "bound_to (snd (getUrl s code' now)) code r"
    using b by (rule bound_getUrl)
  have 2: "bound_to (snd (recordClick s code' metadata now)) code r"
    using b by (rule bound_recordClick)
  have 3: "\<forall>r' g' s'.
             post_api_urls md5_hex env g s (body\<lparr> body_shortcode := Some (c # cs) \<rparr>) now
               = Inr (r', g', s') \<longrightarrow> bound_to s' code r \<and> c # cs \<noteq> code"
    using bound_custom_create [OF b] by blast
  have 4: "expiresAt r > now \<longrightarrow>
             jsmap_get (urls (snd (cleanupExpiredUrls s now))) code = Some r"
    using x assms(2) by (simp add: cleanup_urls)
  have 5: "expiresAt r \<le> now \<and> code = c # cs \<longrightarrow>
               \<not> exists (snd (cleanupExpiredUrls s now)) code
               \<and> (\<exists>r' s'.
                     post_api_urls md5_hex env g (snd (cleanupExpiredUrls s now))
                       (body\<lparr> body_shortcode := Some code \<rparr>) now' = Inr (r', g, s')
                     \<and> jsmap_get (urls s') code = Some r' \<and> createdAt r' = now')"
  proof
    assume a: "expiresAt r \<le> now \<and> code = c # cs"
    then have n: "\<not> exists (snd (cleanupExpiredUrls s now)) code"
      using x by (simp add: exists_def jsmap_has_get cleanup_urls)
    moreover have "\<exists>r' s'.
                     post_api_urls md5_hex env g (snd (cleanupExpiredUrls s now))
                       (body\<lparr> body_shortcode := Some code \<rparr>) now' = Inr (r', g, s')
                     \<and> jsmap_get (urls s') code = Some r' \<and> createdAt r' = now'"
      using n a
      by (simp add: post_api_urls_custom storeUrl_def Let_def jsmap_get_set del: jsmap_set.simps)
    ultimately show "\<not> exists (snd (cleanupExpiredUrls s now)) code
               \<and> (\<exists>r' s'.
                     post_api_urls md5_hex env g (snd (cleanupExpiredUrls s now))
                       (body\<lparr> body_shortcode := Some code \<rparr>) now' = Inr (r', g, s')
                     \<and> jsmap_get (urls s') code = Some r' \<and> createdAt r' = now')"
      by simp
  qed
  from 1 2 3 4 5 show ?thesis by simp
qed


theorem shortcode_bound_while_stored_witness:
  "keys_distinct ex_store1
   \<and> jsmap_get (urls ex_store1) ''abc'' = Some ex_record_a
   \<and> bound_to (snd (getUrl ex_store1 ''abc'' 100)) ''abc'' ex_record_a
   \<and> bound_to (snd (recordClick ex_store1 ''abc'' ex_meta 100)) ''abc'' ex_record_a
   \<and> bound_to (snd (storeUrl ex_store1 ''xyz''
                      \<lparr> url = ''https://b.example'', expiresIn = 30, data_description = None \<rparr>
                      100)) ''abc'' ex_record_a
   \<and> jsmap_get (urls (snd (cleanupExpiredUrls ex_store1 100))) ''abc'' = Some ex_record_a
   \<and> \<not> exists (snd (cleanupExpiredUrls ex_store1 60000)) ''abc''
   \<and> (\<exists>r' s'.
         post_api_urls id ex_env ex_gen (snd (cleanupExpiredUrls ex_store1 60000))
           (ex_body (Some ''abc'')) 60001 = Inr (r', ex_gen, s')
         \<and> jsmap_get (urls s') ''abc'' = Some r' \<and> createdAt r' = 60001)"
proof -
  have d: "keys_distinct ex_store1"
    by (simp add: ex_store1_value keys_distinct_def jsmap_keys_def)
  have r: "jsmap_get (urls ex_store1) ''abc'' = Some ex_record_a"
    by (simp add: ex_store1_value jsmap_get_def ex_record_a_def)
  have e: "expiresAt ex_record_a = 60000"
    by (simp add: ex_record_a_def)
  have b: "(ex_body None)\<lparr> body_shortcode := Some c \<rparr> = ex_body (Some c)" for c
    by (simp add: ex_body_def)
  have x: "\<not> exists ex_store1 ''xyz''"
    by (simp add: ex_store1_value exists_def jsmap_has_def)
  have p: "post_api_urls id ex_env ex_gen ex_store1
             ((ex_body None)\<lparr> body_shortcode := Some ''xyz'' \<rparr>) 100 =
           Inr (fst (storeUrl ex_store1 ''xyz''
                      \<lparr> url = ''https://b.example'', expiresIn = 30, data_description = None \<rparr>
                      100), ex_gen,
                snd (storeUrl ex_store1 ''xyz''
                      \<lparr> url = ''https://b.example'', expiresIn = 30, data_description = None \<rparr>
                      100))"
    using x post_api_urls_custom [where md5_hex = id and env = ex_env and g = ex_gen
        and s = ex_store1 and body = "ex_body None" and c = "CHR ''x''" and cs = "''yz''"
        and now = 100]
    by (simp add: ex_body_def)
  show ?thesis
    using shortcode_bound_while_stored [OF d r, where code' = "''abc''" and now = 100
        and metadata = ex_meta and md5_hex = id and env = ex_env and g = ex_gen
        and body = "ex_body None" and c = "CHR ''x''" and cs = "''yz''"]
      shortcode_bound_while_stored [OF d r, where code' = "''abc''" and now = 60000
        and metadata = ex_meta and md5_hex = id and env = ex_env and g = ex_gen
        and body = "ex_body None" and c = "CHR ''a''" and cs = "''bc''" and now' = 60001]
      d r e b p
    by simp
qed

subsection \<open>The cache's eviction\<close>

























subsection \<open>The generator's retry loop\<close>

lemma generate_loop_first_free:
  assumes "run_attempts md5_hex env opts f (Suc N) g c = Some (xs, g', c')"
    and "\<forall>i<N. snd (xs ! i)" and "\<not> snd (xs ! N)"
    and "int (a + N) < opt_maxAttempts opts"
  shows "generate_loop md5_hex env opts (Some f) a calls g c =
           Inr \<lparr> gen_shortcode = fst (xs ! N), gen_attempts = a + N + 1,
                 gen_calls = calls + N + 1, gen_generator = g', gen_callback = c' \<rparr>"
  using assms
proof (induction N arbitrary: a calls g c xs)
  case 0
  then show ?case
    by (subst generate_loop.simps) (auto split: sum.splits)
next
  case (Suc N)
  from Suc.prems(1) obtain code g1 where
    cand: "generate_candidate md5_hex env opts g = Inr (code, g1)"
    by (auto split: sum.splits)
  from Suc.prems(1) cand obtain ys where
    rest: "run_attempts md5_hex env opts f (Suc N) g1 (snd (f code c)) = Some (ys, g', c')"
    and xs: "xs = (code, fst (f code c)) # ys"
    by (auto split: option.splits)
  have hit: "fst (f code c)"
    using Suc.prems(2) xs by auto
  have 1: "\<forall>i<N. snd (ys ! i)"
    using Suc.prems(2) xs by auto
  have 2: "\<not> snd (ys ! N)"
    using Suc.prems(3) xs by simp
  have 3: "int (Suc a + N) < opt_maxAttempts opts"
    using Suc.prems(4) by simp
  have "generate_loop md5_hex env opts (Some f) a calls g c =
          generate_loop md5_hex env opts (Some f) (a + 1) (calls + 1) g1 (snd (f code c))"
    using cand hit 3 by (subst generate_loop.simps) simp
  also have "\<dots> = Inr \<lparr> gen_shortcode = fst (ys ! N), gen_attempts = Suc a + N + 1,
                 gen_calls = Suc calls + N + 1, gen_generator = g', gen_callback = c' \<rparr>"
    using Suc.IH [OF rest 1 2 3, of "Suc calls"] by simp
  finally show ?case by (simp add: xs)
qed

lemma generate_loop_exhausted:
  assumes "run_attempts md5_hex env opts f (Suc N) g c = Some (xs, g', c')"
    and "\<forall>i\<le>N. snd (xs ! i)"
    and "int (a + N + 1) \<ge> opt_maxAttempts opts"
    and "int (a + N) < opt_maxAttempts opts \<or> N = 0"
  shows "generate_loop md5_hex env opts (Some f) a calls g c =
           Inr \<lparr> gen_shortcode =
                   fst (generateRandom env g' (opt_length opts + 2) (opt_readable opts)),
                 gen_attempts = a + N + 1, gen_calls = calls + N + 1,
                 gen_generator =
                   snd (generateRandom env g' (opt_length opts + 2) (opt_readable opts)),
                 gen_callback = c' \<rparr>"
  using assms
proof (induction N arbitrary: a calls g c xs)
  case 0
  then show ?case
    by (subst generate_loop.simps) (auto split: sum.splits)
next
  case (Suc N)
  from Suc.prems(1) obtain code g1 where
    cand: "generate_candidate md5_hex env opts g = Inr (code, g1)"
    by (auto split: sum.splits)
  from Suc.prems(1) cand obtain ys where
    rest: "run_attempts md5_hex env opts f (Suc N) g1 (snd (f code c)) = Some (ys, g', c')"
    and xs: "xs = (code, fst (f code c)) # ys"
    by (auto split: option.splits)
  have hit: "fst (f code c)"
    using Suc.prems(2) xs by auto
  have 1: "\<forall>i\<le>N. snd (ys ! i)"
    using Suc.prems(2) xs by auto
  have 2: "int (Suc a + N + 1) \<ge> opt_maxAttempts opts"
    using Suc.prems(3) by simp
  have 3: "int (Suc a + N) < opt_maxAttempts opts \<or> N = 0"
    using Suc.prems(4) by simp
  have 4: "int (a + 1) < opt_maxAttempts opts"
    using Suc.prems(4) by simp
  have "generate_loop md5_hex env opts (Some f) a calls g c =
          generate_loop md5_hex env opts (Some f) (a + 1) (calls + 1) g1 (snd (f code c))"
    using cand hit 4 by (subst generate_loop.simps) simp
  also have "\<dots> = Inr \<lparr> gen_shortcode =
                   fst (generateRandom env g' (opt_length opts + 2) (opt_readable opts)),
                 gen_attempts = Suc a + N + 1, gen_calls = Suc calls + N + 1,
                 gen_generator =
                   snd (generateRandom env g' (opt_length opts + 2) (opt_readable opts)),
                 gen_callback = c' \<rparr>"
    using Suc.IH [OF rest 1 2 3, of "Suc calls"] by simp
  finally show ?case by simp
qed

text \<open>
  C4: when the callback answers true to the first \<open>N\<close> candidates and false to the next,
  and \<open>N\<close> is below \<^verbatim>\<open>maxAttempts\<close>, \<^verbatim>\<open>generate\<close> returns that next candidate,
  after \<open>N + 1\<close> attempts and \<open>N + 1\<close> calls of the callback. When the callback answers
  true to all \<^verbatim>\<open>maxAttempts\<close> candidates (the loop draws one candidate even when
  \<^verbatim>\<open>maxAttempts\<close> is below 1), \<^verbatim>\<open>generate\<close> returns one random draw of length + 2
  and has called the callback once per candidate and not for that draw.
\<close>

theorem generate_collision_retry:
  "(run_attempts md5_hex env opts f (Suc N) g c = Some (xs, g', c')
      \<and> (\<forall>i<N. snd (xs ! i)) \<and> \<not> snd (xs ! N) \<and> int N < opt_maxAttempts opts \<longrightarrow>
    generate md5_hex env g opts (Some f) c =
      Inr \<lparr> gen_shortcode = fst (xs ! N), gen_attempts = N + 1, gen_calls = N + 1,
            gen_generator = g', gen_callback = c' \<rparr>)
   \<and> (run_attempts md5_hex env opts f (nat (max 1 (opt_maxAttempts opts))) g c = Some (ys, h, d)
      \<and> (\<forall>i < nat (max 1 (opt_maxAttempts opts)). snd (ys ! i)) \<longrightarrow>
    generate md5_hex env g opts (Some f) c =
      Inr \<lparr> gen_shortcode = fst (generateRandom env h (opt_length opts + 2) (opt_readable opts)),
            gen_attempts = nat (max 1 (opt_maxAttempts opts)),
            gen_calls = nat (max 1 (opt_maxAttempts opts)),
            gen_generator = snd (generateRandom env h (opt_length opts + 2) (opt_readable opts)),
            gen_callback = d \<rparr>)"
proof (intro conjI impI)
  assume a: "run_attempts md5_hex env opts f (Suc N) g c = Some (xs, g', c')
      \<and> (\<forall>i<N. snd (xs ! i)) \<and> \<not> snd (xs ! N) \<and> int N < opt_maxAttempts opts"
  then show "generate md5_hex env g opts (Some f) c =
      Inr \<lparr> gen_shortcode = fst (xs ! N), gen_attempts = N + 1, gen_calls = N + 1,
            gen_generator = g', gen_callback = c' \<rparr>"
    using generate_loop_first_free [of md5_hex env opts f N g c xs g' c' 0 0]
    by (simp add: generate_def)
next
  let ?M = "nat (max 1 (opt_maxAttempts opts))"
  assume a: "run_attempts md5_hex env opts f ?M g c = Some (ys, h, d)
      \<and> (\<forall>i < ?M. snd (ys ! i))"
  obtain N where M: "?M = Suc N"
    by (cases ?M) auto
  have "int (0 + N + 1) \<ge> opt_maxAttempts opts" "int (0 + N) < opt_maxAttempts opts \<or> N = 0"
    using M by auto
  moreover have "\<forall>i\<le>N. snd (ys ! i)"
    using a M by (simp add: less_Suc_eq_le)
  moreover have "run_attempts md5_hex env opts f (Suc N) g c = Some (ys, h, d)"
    using a M by simp
  ultimately have "generate_loop md5_hex env opts (Some f) 0 0 g c =
           Inr \<lparr> gen_shortcode =
                   fst (generateRandom env h (opt_length opts + 2) (opt_readable opts)),
                 gen_attempts = 0 + N + 1, gen_calls = 0 + N + 1,
                 gen_generator =
                   snd (generateRandom env h (opt_length opts + 2) (opt_readable opts)),
                 gen_callback = d \<rparr>"
    by (intro generate_loop_exhausted)
  then show "generate md5_hex env g opts (Some f) c =
      Inr \<lparr> gen_shortcode = fst (generateRandom env h (opt_length opts + 2) (opt_readable opts)),
            gen_attempts = ?M, gen_calls = ?M,
            gen_generator = snd (generateRandom env h (opt_length opts + 2) (opt_readable opts)),
            gen_callback = d \<rparr>"
    by (simp add: generate_def M)
qed


lemma run_attempts_numeral:
  "run_attempts md5_hex env opts f (numeral k) g c =
     (case generate_candidate md5_hex env opts g of
        Inl e \<Rightarrow> None
      | Inr (code, g1) \<Rightarrow>
          (case run_attempts md5_hex env opts f (pred_numeral k) g1 (snd (f code c)) of
             None \<Rightarrow> None
           | Some (xs, g', c') \<Rightarrow> Some ((code, fst (f code c)) # xs, g', c')))"
  by (simp add: numeral_eq_Suc)

lemma ex_candidate:
  "generate_candidate id ex_env (ex_options m) \<lparr> counter = 41, random_calls = n, now_calls = 0 \<rparr>
     = Inr (fst (generateRandom ex_env \<lparr> counter = 41, random_calls = n, now_calls = 0 \<rparr> 2 False),
            \<lparr> counter = 41, random_calls = n + 2, now_calls = 0 \<rparr>)"
  by (simp add: generate_candidate_def ex_options_def default_options_def generateRandom_def
      generateRandom_loop_numeral random_index_def)

lemma ex_draw_odd:
  "odd n \<Longrightarrow>
     fst (generateRandom ex_env \<lparr> counter = 41, random_calls = n, now_calls = 0 \<rparr> 2 False) = ''9F''"
  by (simp add: generateRandom_def generateRandom_loop_numeral random_index_def ex_env_def
      charAt_def charset_def)

lemma ex_run_free:
  "run_attempts id ex_env (ex_options 10) (ex_callback 2) (Suc 2) ex_gen 0 =
     Some ([(''9F'', True), (''9F'', True), (''9F'', False)],
           \<lparr> counter = 41, random_calls = 7, now_calls = 0 \<rparr>, 3)"
  by (simp add: run_attempts_numeral ex_gen_def ex_candidate ex_draw_odd ex_callback_def)

lemma ex_run_taken:
  "run_attempts id ex_env (ex_options 3) (ex_callback 5) 3 ex_gen 0 =
     Some ([(''9F'', True), (''9F'', True), (''9F'', True)],
           \<lparr> counter = 41, random_calls = 7, now_calls = 0 \<rparr>, 3)"
  by (simp add: run_attempts_numeral ex_gen_def ex_candidate ex_draw_odd ex_callback_def)

lemma ex_fallback:
  "generateRandom ex_env \<lparr> counter = 41, random_calls = 7, now_calls = 0 \<rparr> 4 False =
     (''9F9F'', \<lparr> counter = 41, random_calls = 11, now_calls = 0 \<rparr>)"
  by (simp add: generateRandom_def generateRandom_loop_numeral random_index_def ex_env_def
      charAt_def charset_def)

theorem generate_collision_retry_witness:
  "run_attempts id ex_env (ex_options 10) (ex_callback 2) (Suc 2) ex_gen 0 =
     Some ([(''9F'', True), (''9F'', True), (''9F'', False)],
           \<lparr> counter = 41, random_calls = 7, now_calls = 0 \<rparr>, 3)
   \<and> generate id ex_env ex_gen (ex_options 10) (Some (ex_callback 2)) 0 =
       Inr \<lparr> gen_shortcode = ''9F'', gen_attempts = 3, gen_calls = 3,
             gen_generator = \<lparr> counter = 41, random_calls = 7, now_calls = 0 \<rparr>,
             gen_callback = 3 \<rparr>
   \<and> run_attempts id ex_env (ex_options 3) (ex_callback 5) 3 ex_gen 0 =
       Some ([(''9F'', True), (''9F'', True), (''9F'', True)],
             \<lparr> counter = 41, random_calls = 7, now_calls = 0 \<rparr>, 3)
   \<and> generate id ex_env ex_gen (ex_options 3) (Some (ex_callback 5)) 0 =
       Inr \<lparr> gen_shortcode = ''9F9F'', gen_attempts = 3, gen_calls = 3,
             gen_generator = \<lparr> counter = 41, random_calls = 11, now_calls = 0 \<rparr>,
             gen_callback = 3 \<rparr>"
proof -
  have o: "opt_maxAttempts (ex_options m) = m" "opt_length (ex_options m) = 2"
    "opt_readable (ex_options m) = False" for m
    by (simp_all add: ex_options_def default_options_def)
  note t1 = generate_collision_retry [where md5_hex = id and env = ex_env and opts = "ex_options 10"
      and f = "ex_callback 2" and N = 2 and g = ex_gen and c = 0
      and xs = "[(''9F'', True), (''9F'', True), (''9F'', False)]"
      and g' = "\<lparr> counter = 41, random_calls = 7, now_calls = 0 \<rparr>" and c' = 3
      and ys = "[]" and h = ex_gen and d = 0]
  note t2 = generate_collision_retry [where md5_hex = id and env = ex_env and opts = "ex_options 3"
      and f = "ex_callback 5" and N = 0 and g = ex_gen and c = 0
      and xs = "[]" and g' = ex_gen and c' = 0
      and ys = "[(''9F'', True), (''9F'', True), (''9F'', True)]"
      and h = "\<lparr> counter = 41, random_calls = 7, now_calls = 0 \<rparr>" and d = 3]
  have h1: "\<forall>i<2. snd ([(''9F'', True), (''9F'', True), (''9F'', False)] ! i)"
    by (auto simp: less_Suc_eq numeral_2_eq_2)
  have h2: "\<not> snd ([(''9F'', True), (''9F'', True), (''9F'', False)] ! 2)"
    by simp
  have h3: "\<forall>i<3. snd ([(''9F'', True), (''9F'', True), (''9F'', True)] ! i)"
    by (auto simp: less_Suc_eq numeral_3_eq_3)
  have m: "nat (max 1 (opt_maxAttempts (ex_options 3))) = 3" "int 2 < opt_maxAttempts (ex_options 10)"
    by (simp_all add: o)
  have 1: "generate id ex_env ex_gen (ex_options 10) (Some (ex_callback 2)) 0 =
       Inr \<lparr> gen_shortcode = ''9F'', gen_attempts = 3, gen_calls = 3,
             gen_generator = \<lparr> counter = 41, random_calls = 7, now_calls = 0 \<rparr>,
             gen_callback = 3 \<rparr>"
    using t1 [THEN conjunct1, THEN mp, OF conjI [OF ex_run_free conjI [OF h1 conjI [OF h2 m(2)]]]]
    by simp
  have "generate id ex_env ex_gen (ex_options 3) (Some (ex_callback 5)) 0 =
       Inr \<lparr> gen_shortcode =
               fst (generateRandom ex_env \<lparr> counter = 41, random_calls = 7, now_calls = 0 \<rparr>
                      (opt_length (ex_options 3) + 2) (opt_readable (ex_options 3))),
             gen_attempts = nat (max 1 (opt_maxAttempts (ex_options 3))),
             gen_calls = nat (max 1 (opt_maxAttempts (ex_options 3))),
             gen_generator =
               snd (generateRandom ex_env \<lparr> counter = 41, random_calls = 7, now_calls = 0 \<rparr>
                      (opt_length (ex_options 3) + 2) (opt_readable (ex_options 3))),
             gen_callback = 3 \<rparr>"
  proof (rule t2 [THEN conjunct2, THEN mp], intro conjI)
    show "run_attempts id ex_env (ex_options 3) (ex_callback 5)
            (nat (max 1 (opt_maxAttempts (ex_options 3)))) ex_gen 0 =
          Some ([(''9F'', True), (''9F'', True), (''9F'', True)],
                \<lparr> counter = 41, random_calls = 7, now_calls = 0 \<rparr>, 3)"
      by (simp only: m ex_run_taken)
    show "\<forall>i<nat (max 1 (opt_maxAttempts (ex_options 3))).
            snd ([(''9F'', True), (''9F'', True), (''9F'', True)] ! i)"
      unfolding m by (rule h3)
  qed
  then have 2: "generate id ex_env ex_gen (ex_options 3) (Some (ex_callback 5)) 0 =
       Inr \<lparr> gen_shortcode = ''9F9F'', gen_attempts = 3, gen_calls = 3,
             gen_generator = \<lparr> counter = 41, random_calls = 11, now_calls = 0 \<rparr>,
             gen_callback = 3 \<rparr>"
    by (simp add: m o ex_fallback)
  from 1 2 ex_run_free ex_run_taken show ?thesis by simp
qed

end
